theory Spec2Isabelle
  imports Main "HOL-Library.Char_ord" "HOL-Library.List_Lexorder"
begin

text \<open>
  The rule engine of \<open>beancount/ingest/rule.py\<close>: the class \<open>RuleMeta\<close> with its
  methods \<open>is_txn_method\<close> and \<open>check\<close>, and the class \<open>Ruler\<close> with its constructor,
  \<open>garther_accounts\<close>, \<open>_match\<close> and \<open>match\<close>. Every function returns its result or the
  exception it raises; \<open>_match\<close> and \<open>match\<close>, which assign \<open>is_mask\<close> of the stored
  rules, also return the rules as they leave them.
\<close>

section \<open>Python values\<close>

text \<open>
  The values that the YAML loader puts into a rule and that a record carries: \<open>None\<close>,
  strings, integers, booleans and lists of these. Floats and nested mappings are left out
  of the model. A string is a list of characters with code points below 256.
\<close>

datatype pyval = PNone | PStr string | PInt int | PBool bool | PList "pyval list"

datatype error = Exception | KeyError | AssertionError | AttributeError | TypeError | ValueError

text \<open>Truth value testing, as \<open>if x:\<close> does it.\<close>

fun truthy :: "pyval \<Rightarrow> bool" where
  "truthy PNone = False"
| "truthy (PStr s) = (s \<noteq> [])"
| "truthy (PInt n) = (n \<noteq> 0)"
| "truthy (PBool b) = b"
| "truthy (PList xs) = (xs \<noteq> [])"

text \<open>\<open>isinstance(v, str)\<close>.\<close>

fun isinstance_str :: "pyval \<Rightarrow> bool" where
  "isinstance_str (PStr s) = True"
| "isinstance_str v = False"

text \<open>\<open>a == b\<close>: a boolean equals the integer 0 or 1, lists are compared element by element.\<close>

fun py_eq :: "pyval \<Rightarrow> pyval \<Rightarrow> bool"
  and py_eq_list :: "pyval list \<Rightarrow> pyval list \<Rightarrow> bool" where
  "py_eq PNone b = (b = PNone)"
| "py_eq (PStr s) b = (b = PStr s)"
| "py_eq (PInt n) b = (case b of PInt m \<Rightarrow> n = m | PBool c \<Rightarrow> n = (if c then 1 else 0) | _ \<Rightarrow> False)"
| "py_eq (PBool a) b = (case b of PInt m \<Rightarrow> m = (if a then 1 else 0) | PBool c \<Rightarrow> a = c | _ \<Rightarrow> False)"
| "py_eq (PList xs) b = (case b of PList ys \<Rightarrow> py_eq_list xs ys | _ \<Rightarrow> False)"
| "py_eq_list [] ys = (ys = [])"
| "py_eq_list (x # xs) ys = (case ys of [] \<Rightarrow> False | y # ys' \<Rightarrow> py_eq x y \<and> py_eq_list xs ys')"

subsection \<open>String operations\<close>

fun startswith :: "string \<Rightarrow> string \<Rightarrow> bool" where
  "startswith [] s = True"
| "startswith (p # ps) [] = False"
| "startswith (p # ps) (c # cs) = (p = c \<and> startswith ps cs)"

text \<open>\<open>sub in s\<close> on two strings: \<open>sub\<close> occurs in \<open>s\<close> as a contiguous piece.\<close>

fun str_contains :: "string \<Rightarrow> string \<Rightarrow> bool" where
  "str_contains sub [] = (sub = [])"
| "str_contains sub (c # cs) = (startswith sub (c # cs) \<or> str_contains sub cs)"

text \<open>\<open>str.isspace\<close> on one character, for code points below 256.\<close>

definition isspace :: "char \<Rightarrow> bool" where
  "isspace c = (let n = (of_char c :: nat) in
     (9 \<le> n \<and> n \<le> 13) \<or> (28 \<le> n \<and> n \<le> 32) \<or> n = 133 \<or> n = 160)"

definition strip :: "string \<Rightarrow> string" where
  "strip s = rev (dropWhile isspace (rev (dropWhile isspace s)))"

text \<open>
  \<open>s.split(sep)\<close>: the pieces between the occurrences of \<open>sep\<close>, found from the left
  without overlap. Python raises ValueError on an empty separator.
\<close>

function split_loop :: "string \<Rightarrow> string \<Rightarrow> string \<Rightarrow> string list" where
  "split_loop sep cur [] = [cur]"
| "split_loop sep cur (c # cs) =
     (if sep \<noteq> [] \<and> startswith sep (c # cs)
      then cur # split_loop sep [] (drop (length sep) (c # cs))
      else split_loop sep (cur @ [c]) cs)"
  by pat_completeness auto
termination
  by (relation "measure (\<lambda>(sep, cur, s). length s)") auto

definition py_split :: "string \<Rightarrow> string \<Rightarrow> error + string list" where
  "py_split s sep = (if sep = [] then Inl ValueError else Inr (split_loop sep [] s))"

section \<open>RuleMeta\<close>

text \<open>
  The sixteen constants \<open>RULE_*\<close> are the only attribute names the code passes to
  \<open>getattr\<close> and \<open>setattr\<close>; \<open>field_name\<close> gives the string each one stands for.
\<close>

datatype field =
    RULE_PAYEE | RULE_ITEM | RULE_TXN_TYPE | RULE_TXN_METHOD | RULE_TXN_INOUT
  | RULE_TXN_INPUT | RULE_TXN_OUTPUT | RULE_TXN_STATUS | RULE_TXN_META | RULE_TXN_MASK
  | RULE_TXN_EXCLUDE | RULE_START_TIME | RULE_END_TIME | RULE_MINUS_ACCOUNT
  | RULE_PLUS_ACCOUNT | RULE_SEPERATOR

fun field_name :: "field \<Rightarrow> string" where
  "field_name RULE_PAYEE = ''payee''"
| "field_name RULE_ITEM = ''item''"
| "field_name RULE_TXN_TYPE = ''txn_type''"
| "field_name RULE_TXN_METHOD = ''txn_method''"
| "field_name RULE_TXN_INOUT = ''txn_inout''"
| "field_name RULE_TXN_INPUT = ''txn_input''"
| "field_name RULE_TXN_OUTPUT = ''txn_output''"
| "field_name RULE_TXN_STATUS = ''txn_status''"
| "field_name RULE_TXN_META = ''txn_meta''"
| "field_name RULE_TXN_MASK = ''txn_mask''"
| "field_name RULE_TXN_EXCLUDE = ''txn_exclude''"
| "field_name RULE_START_TIME = ''start_time''"
| "field_name RULE_END_TIME = ''end_time''"
| "field_name RULE_MINUS_ACCOUNT = ''method_account''"
| "field_name RULE_PLUS_ACCOUNT = ''target_account''"
| "field_name RULE_SEPERATOR = ''seperator''"

record RuleMeta =
  payee :: pyval
  item :: pyval
  seperator :: pyval
  txn_type :: pyval
  txn_method :: pyval
  txn_inout :: pyval
  txn_status :: pyval
  start_time :: pyval
  end_time :: pyval
  method_account :: pyval
  target_account :: pyval
  txn_meta :: pyval
  txn_input :: pyval
  txn_output :: pyval
  is_mask :: pyval
  txn_mask :: pyval
  txn_exclude :: pyval

text \<open>\<open>RuleMeta.__init__\<close>: every attribute is \<open>None\<close>.\<close>

definition RuleMeta_init :: RuleMeta where
  "RuleMeta_init = \<lparr> payee = PNone, item = PNone, seperator = PNone, txn_type = PNone,
     txn_method = PNone, txn_inout = PNone, txn_status = PNone, start_time = PNone,
     end_time = PNone, method_account = PNone, target_account = PNone, txn_meta = PNone,
     txn_input = PNone, txn_output = PNone, is_mask = PNone, txn_mask = PNone,
     txn_exclude = PNone \<rparr>"

definition get_fields :: "field list" where
  "get_fields = [
     RULE_PAYEE, RULE_ITEM, RULE_TXN_TYPE, RULE_TXN_METHOD,
     RULE_TXN_INOUT, RULE_START_TIME, RULE_END_TIME, RULE_MINUS_ACCOUNT,
     RULE_PLUS_ACCOUNT, RULE_SEPERATOR, RULE_TXN_STATUS, RULE_TXN_META,
     RULE_TXN_INPUT, RULE_TXN_OUTPUT, RULE_TXN_MASK, RULE_TXN_EXCLUDE]"

fun getattr :: "RuleMeta \<Rightarrow> field \<Rightarrow> pyval" where
  "getattr r RULE_PAYEE = payee r"
| "getattr r RULE_ITEM = item r"
| "getattr r RULE_TXN_TYPE = txn_type r"
| "getattr r RULE_TXN_METHOD = txn_method r"
| "getattr r RULE_TXN_INOUT = txn_inout r"
| "getattr r RULE_TXN_INPUT = txn_input r"
| "getattr r RULE_TXN_OUTPUT = txn_output r"
| "getattr r RULE_TXN_STATUS = txn_status r"
| "getattr r RULE_TXN_META = txn_meta r"
| "getattr r RULE_TXN_MASK = txn_mask r"
| "getattr r RULE_TXN_EXCLUDE = txn_exclude r"
| "getattr r RULE_START_TIME = start_time r"
| "getattr r RULE_END_TIME = end_time r"
| "getattr r RULE_MINUS_ACCOUNT = method_account r"
| "getattr r RULE_PLUS_ACCOUNT = target_account r"
| "getattr r RULE_SEPERATOR = seperator r"

fun setattr :: "RuleMeta \<Rightarrow> field \<Rightarrow> pyval \<Rightarrow> RuleMeta" where
  "setattr r RULE_PAYEE v = r\<lparr>payee := v\<rparr>"
| "setattr r RULE_ITEM v = r\<lparr>item := v\<rparr>"
| "setattr r RULE_TXN_TYPE v = r\<lparr>txn_type := v\<rparr>"
| "setattr r RULE_TXN_METHOD v = r\<lparr>txn_method := v\<rparr>"
| "setattr r RULE_TXN_INOUT v = r\<lparr>txn_inout := v\<rparr>"
| "setattr r RULE_TXN_INPUT v = r\<lparr>txn_input := v\<rparr>"
| "setattr r RULE_TXN_OUTPUT v = r\<lparr>txn_output := v\<rparr>"
| "setattr r RULE_TXN_STATUS v = r\<lparr>txn_status := v\<rparr>"
| "setattr r RULE_TXN_META v = r\<lparr>txn_meta := v\<rparr>"
| "setattr r RULE_TXN_MASK v = r\<lparr>txn_mask := v\<rparr>"
| "setattr r RULE_TXN_EXCLUDE v = r\<lparr>txn_exclude := v\<rparr>"
| "setattr r RULE_START_TIME v = r\<lparr>start_time := v\<rparr>"
| "setattr r RULE_END_TIME v = r\<lparr>end_time := v\<rparr>"
| "setattr r RULE_MINUS_ACCOUNT v = r\<lparr>method_account := v\<rparr>"
| "setattr r RULE_PLUS_ACCOUNT v = r\<lparr>target_account := v\<rparr>"
| "setattr r RULE_SEPERATOR v = r\<lparr>seperator := v\<rparr>"

text \<open>
  \<open>RuleMeta.is_txn_method\<close>: the loop counts the true attributes among \<open>txn_method\<close> and
  \<open>method_account\<close> and returns False at the first other attribute that is true.
\<close>

fun is_txn_method_loop :: "RuleMeta \<Rightarrow> field list \<Rightarrow> nat \<Rightarrow> bool" where
  "is_txn_method_loop r [] ans = (ans = 2)"
| "is_txn_method_loop r (k # ks) ans =
     (if truthy (getattr r k)
      then (if k = RULE_TXN_METHOD \<or> k = RULE_MINUS_ACCOUNT
            then is_txn_method_loop r ks (ans + 1)
            else False)
      else is_txn_method_loop r ks ans)"

definition is_txn_method :: "RuleMeta \<Rightarrow> bool" where
  "is_txn_method r = is_txn_method_loop r get_fields 0"

text \<open>
  \<open>RuleMeta.check\<close>: counts the attributes, the two accounts apart, that are \<open>None\<close>;
  False when all of them are.
\<close>

fun check_loop :: "RuleMeta \<Rightarrow> field list \<Rightarrow> nat \<Rightarrow> nat" where
  "check_loop r [] c = c"
| "check_loop r (k # ks) c =
     (if k = RULE_PLUS_ACCOUNT \<or> k = RULE_MINUS_ACCOUNT then check_loop r ks c
      else if getattr r k = PNone then check_loop r ks (c + 1)
      else check_loop r ks c)"

definition check :: "RuleMeta \<Rightarrow> bool" where
  "check r = (if check_loop r get_fields 0 = length get_fields - 2 then False else True)"

section \<open>Ruler\<close>

text \<open>
  The loaded YAML document: the two default accounts and the list \<open>rules\<close>, each of them
  \<open>None\<close> when its key is absent. A rule definition is a mapping from names to values,
  written as an association list.
\<close>

record Config =
  DEFAULT_MINUS :: "pyval option"
  DEFAULT_PLUS :: "pyval option"
  rules_key :: "(string \<times> pyval) list list option"

record Ruler =
  config :: Config
  rules :: "RuleMeta list"

text \<open>The inner loop of \<open>_convert_to_rules\<close>: copy the recognised names that are present.\<close>

fun copy_fields :: "(string \<times> pyval) list \<Rightarrow> RuleMeta \<Rightarrow> field list \<Rightarrow> RuleMeta" where
  "copy_fields cfg rule [] = rule"
| "copy_fields cfg rule (f # fs) =
     (case map_of cfg (field_name f) of
        Some v \<Rightarrow> copy_fields cfg (setattr rule f v) fs
      | None \<Rightarrow> copy_fields cfg rule fs)"

text \<open>One pass of the outer loop: a fresh \<open>RuleMeta\<close> filled from one definition.\<close>

definition convert_rule :: "(string \<times> pyval) list \<Rightarrow> RuleMeta" where
  "convert_rule cfg = copy_fields cfg RuleMeta_init get_fields"

text \<open>\<open>Ruler._convert_to_rules\<close> raises when the document has no key \<open>rules\<close>.\<close>

definition convert_to_rules :: "Config \<Rightarrow> error + RuleMeta list" where
  "convert_to_rules yaml_config =
     (case rules_key yaml_config of
        None \<Rightarrow> Inl Exception
      | Some defs \<Rightarrow> Inr (map convert_rule defs))"

text \<open>
  \<open>Ruler.__init__\<close>. The argument is the document found at the path, \<open>None\<close> when the file
  does not exist.
\<close>

definition Ruler_init :: "Config option \<Rightarrow> error + Ruler" where
  "Ruler_init file =
     (case file of
        None \<Rightarrow> Inl Exception
      | Some cfg \<Rightarrow>
          (case convert_to_rules cfg of
             Inl e \<Rightarrow> Inl e
           | Inr rs \<Rightarrow>
               if list_all check rs then Inr \<lparr> config = cfg, rules = rs \<rparr>
               else Inl AssertionError))"

subsection \<open>garther_accounts\<close>

text \<open>
  A Python set is kept as the list of its members, none equal to another. Lists cannot be
  hashed, so testing one for membership raises TypeError.
\<close>

fun hashable :: "pyval \<Rightarrow> bool" where
  "hashable (PList xs) = False"
| "hashable v = True"

definition set_member :: "pyval \<Rightarrow> pyval list \<Rightarrow> bool" where
  "set_member x ans = list_ex (py_eq x) ans"

text \<open>\<open>if acc and acc not in ans: ans.add(acc)\<close>\<close>

definition add_account :: "pyval \<Rightarrow> pyval list \<Rightarrow> error + pyval list" where
  "add_account acc ans =
     (if truthy acc
      then (if \<not> hashable acc then Inl TypeError
            else if \<not> set_member acc ans then Inr (ans @ [acc])
            else Inr ans)
      else Inr ans)"

fun garther_loop :: "RuleMeta list \<Rightarrow> pyval list \<Rightarrow> error + pyval list" where
  "garther_loop [] ans = Inr ans"
| "garther_loop (rule # rs) ans =
     (case add_account (getattr rule RULE_MINUS_ACCOUNT) ans of
        Inl e \<Rightarrow> Inl e
      | Inr ans1 \<Rightarrow>
          (case add_account (getattr rule RULE_PLUS_ACCOUNT) ans1 of
             Inl e \<Rightarrow> Inl e
           | Inr ans2 \<Rightarrow> garther_loop rs ans2))"

fun str_of :: "pyval \<Rightarrow> string" where
  "str_of (PStr s) = s"
| "str_of v = []"

fun is_number :: "pyval \<Rightarrow> bool" where
  "is_number (PInt n) = True"
| "is_number (PBool b) = True"
| "is_number v = False"

fun int_of :: "pyval \<Rightarrow> int" where
  "int_of (PInt n) = n"
| "int_of (PBool b) = (if b then 1 else 0)"
| "int_of v = 0"

text \<open>
  \<open>list.sort\<close> on the members of the set: strings are ordered lexicographically, numbers
  by value; a list of two or more members that mixes the two, or holds \<open>None\<close>, has a
  comparison that raises TypeError.
\<close>

definition py_sort :: "pyval list \<Rightarrow> error + pyval list" where
  "py_sort xs =
     (if length xs \<le> 1 then Inr xs
      else if list_all isinstance_str xs then Inr (map PStr (sort (map str_of xs)))
      else if list_all is_number xs then Inr (sort_key int_of xs)
      else Inl TypeError)"

definition garther_accounts :: "Ruler \<Rightarrow> error + pyval list" where
  "garther_accounts self =
     (case DEFAULT_MINUS (config self) of
        None \<Rightarrow> Inl KeyError
      | Some dm \<Rightarrow>
          (case DEFAULT_PLUS (config self) of
             None \<Rightarrow> Inl KeyError
           | Some dp \<Rightarrow>
               if \<not> hashable dm \<or> \<not> hashable dp then Inl TypeError
               else (case garther_loop (rules self) (if py_eq dp dm then [dm] else [dm, dp]) of
                       Inl e \<Rightarrow> Inl e
                     | Inr ans \<Rightarrow> py_sort ans)))"

subsection \<open>The predicate of one rule\<close>

text \<open>
  A record is a dictionary from strings to values, written as the list of its items in
  insertion order; its keys are distinct, and \<open>map_of\<close> is the subscript. The field-name
  resolver maps a rule field name to a key of the record or to \<open>None\<close>.
\<close>

type_synonym meta = "(string \<times> pyval) list"

type_synonym resolver = "string \<Rightarrow> string option"

text \<open>
  \<open>func_map and func_map(k) and v == meta[func_map(k)]\<close>: false when the resolver gives
  \<open>None\<close> or the empty string; the subscript raises KeyError when the key is not in the
  record.
\<close>

definition resolved_eq :: "resolver \<Rightarrow> meta \<Rightarrow> field \<Rightarrow> pyval \<Rightarrow> error + bool" where
  "resolved_eq func_map meta k v =
     (case func_map (field_name k) of
        None \<Rightarrow> Inr False
      | Some key \<Rightarrow>
          if key = [] then Inr False
          else (case map_of meta key of
                  None \<Rightarrow> Inl KeyError
                | Some mv \<Rightarrow> Inr (py_eq v mv)))"

text \<open>The candidate values of one field: split on the separator and stripped, or the value alone.\<close>

definition split_values :: "RuleMeta \<Rightarrow> pyval \<Rightarrow> error + pyval list" where
  "split_values rule values =
     (if truthy (seperator rule)
      then (case values of
              PStr s \<Rightarrow>
                (case seperator rule of
                   PStr sep \<Rightarrow>
                     (case py_split s sep of
                        Inl e \<Rightarrow> Inl e
                      | Inr xs \<Rightarrow> Inr (map (\<lambda>x. PStr (strip x)) xs))
                 | _ \<Rightarrow> Inl TypeError)
            | _ \<Rightarrow> Inl AttributeError)
      else Inr [values])"

text \<open>
  The loop \<open>for val in values\<close> under one item \<open>v\<close> of the record, for the fields
  \<open>txn_meta\<close> and \<open>txn_mask\<close>. The state is \<open>field_check\<close> and the rule, whose \<open>is_mask\<close>
  is assigned at every hit of a \<open>txn_mask\<close> candidate. \<open>exclude in v\<close> raises TypeError
  when \<open>exclude\<close> is not a string.
\<close>

fun scan_values :: "field \<Rightarrow> pyval \<Rightarrow> pyval list \<Rightarrow> bool \<Rightarrow> RuleMeta \<Rightarrow> (error + bool) \<times> RuleMeta" where
  "scan_values k v [] field_check rule = (Inr field_check, rule)"
| "scan_values k v (val # vals) field_check rule =
     (if isinstance_str v \<and> isinstance_str val \<and> str_contains (str_of val) (str_of v)
      then (if k = RULE_TXN_MASK
            then (let exclude = getattr rule RULE_TXN_EXCLUDE in
                  if truthy exclude
                  then (if \<not> isinstance_str exclude then (Inl TypeError, rule)
                        else if str_contains (str_of exclude) (str_of v)
                        then scan_values k v vals True (rule\<lparr>is_mask := PBool False\<rparr>)
                        else scan_values k v vals True (rule\<lparr>is_mask := PBool True\<rparr>))
                  else scan_values k v vals True (rule\<lparr>is_mask := PBool True\<rparr>))
            else scan_values k v vals True rule)
      else scan_values k v vals field_check rule)"

text \<open>The loop \<open>for _, v in meta.items()\<close>.\<close>

fun scan_meta :: "field \<Rightarrow> meta \<Rightarrow> pyval list \<Rightarrow> bool \<Rightarrow> RuleMeta \<Rightarrow> (error + bool) \<times> RuleMeta" where
  "scan_meta k [] values field_check rule = (Inr field_check, rule)"
| "scan_meta k ((key, v) # items) values field_check rule =
     (case scan_values k v values field_check rule of
        (Inl e, rule') \<Rightarrow> (Inl e, rule')
      | (Inr field_check', rule') \<Rightarrow> scan_meta k items values field_check' rule')"

text \<open>The loop \<open>for v in values\<close> of the other fields, left at the first equal value.\<close>

fun eq_values :: "resolver \<Rightarrow> meta \<Rightarrow> field \<Rightarrow> pyval list \<Rightarrow> error + bool" where
  "eq_values func_map meta k [] = Inr False"
| "eq_values func_map meta k (v # vs) =
     (case resolved_eq func_map meta k v of
        Inl e \<Rightarrow> Inl e
      | Inr True \<Rightarrow> Inr True
      | Inr False \<Rightarrow> eq_values func_map meta k vs)"

text \<open>
  \<open>Ruler._match\<close>, here \<open>match_rule\<close>: the loop over the fields. It returns False at
  the first field whose check fails; the rule comes back with the \<open>is_mask\<close> it was left
  with.
\<close>

fun match_fields :: "resolver \<Rightarrow> meta \<Rightarrow> RuleMeta \<Rightarrow> field list \<Rightarrow> (error + bool) \<times> RuleMeta" where
  "match_fields func_map meta rule [] = (Inr True, rule)"
| "match_fields func_map meta rule (k # ks) =
     (if k = RULE_MINUS_ACCOUNT then match_fields func_map meta rule ks
      else if k = RULE_PLUS_ACCOUNT then match_fields func_map meta rule ks
      else if k = RULE_SEPERATOR then match_fields func_map meta rule ks
      else if k = RULE_TXN_EXCLUDE then match_fields func_map meta rule ks
      else if getattr rule k = PNone then match_fields func_map meta rule ks
      else (case split_values rule (getattr rule k) of
              Inl e \<Rightarrow> (Inl e, rule)
            | Inr values \<Rightarrow>
                (case (if k = RULE_TXN_META \<or> k = RULE_TXN_MASK
                       then scan_meta k meta values False rule
                       else (eq_values func_map meta k values, rule)) of
                   (Inl e, rule') \<Rightarrow> (Inl e, rule')
                 | (Inr field_check, rule') \<Rightarrow>
                     if \<not> field_check then (Inr False, rule')
                     else match_fields func_map meta rule' ks)))"

definition match_rule :: "RuleMeta \<Rightarrow> meta \<Rightarrow> resolver \<Rightarrow> (error + bool) \<times> RuleMeta" where
  "match_rule rule meta func_map = match_fields func_map meta rule get_fields"

subsection \<open>match\<close>

text \<open>
  The first loop of \<open>Ruler.match\<close>: every rule is asserted to pass \<open>check\<close>; a method rule
  whose \<open>txn_method\<close> equals the record's gives the result its \<open>method_account\<close>.
\<close>

fun pass1 :: "resolver \<Rightarrow> meta \<Rightarrow> RuleMeta \<Rightarrow> RuleMeta list \<Rightarrow> error + RuleMeta" where
  "pass1 func_map meta ans [] = Inr ans"
| "pass1 func_map meta ans (rule # rs) =
     (if \<not> check rule then Inl AssertionError
      else if is_txn_method rule
      then (case resolved_eq func_map meta RULE_TXN_METHOD (getattr rule RULE_TXN_METHOD) of
              Inl e \<Rightarrow> Inl e
            | Inr True \<Rightarrow>
                pass1 func_map meta (ans\<lparr>method_account := getattr rule RULE_MINUS_ACCOUNT\<rparr>) rs
            | Inr False \<Rightarrow> pass1 func_map meta ans rs)
      else pass1 func_map meta ans rs)"

text \<open>
  The assignments of a matching rule that is not a mask: the two accounts when the rule
  has them, and every other field of \<open>get_fields\<close>.
\<close>

fun copy_loop :: "RuleMeta \<Rightarrow> RuleMeta \<Rightarrow> field list \<Rightarrow> RuleMeta" where
  "copy_loop rule ans [] = ans"
| "copy_loop rule ans (k # ks) =
     (if k = RULE_MINUS_ACCOUNT then copy_loop rule ans ks
      else if k = RULE_PLUS_ACCOUNT then copy_loop rule ans ks
      else copy_loop rule (setattr ans k (getattr rule k)) ks)"

definition overwrite :: "RuleMeta \<Rightarrow> RuleMeta \<Rightarrow> RuleMeta" where
  "overwrite rule ans =
     (let method_account' = getattr rule RULE_MINUS_ACCOUNT;
          target_account' = getattr rule RULE_PLUS_ACCOUNT;
          ans1 = (if truthy method_account' then ans\<lparr>method_account := method_account'\<rparr> else ans);
          ans2 = (if truthy target_account' then ans1\<lparr>target_account := target_account'\<rparr> else ans1)
      in copy_loop rule ans2 get_fields)"

text \<open>
  The second loop. One pass of its body either goes on to the next rule with the result
  it has built, leaves the loop by \<open>break\<close>, or raises. The rule comes back as the body
  leaves it.
\<close>

datatype outcome = Continue RuleMeta | Break RuleMeta | Raise error

definition pass2_body :: "resolver \<Rightarrow> meta \<Rightarrow> RuleMeta \<Rightarrow> RuleMeta \<Rightarrow> outcome \<times> RuleMeta" where
  "pass2_body func_map meta ans rule =
     (if is_txn_method rule then (Continue ans, rule)
      else if \<not> check rule then (Raise AssertionError, rule)
      else (case match_rule rule meta func_map of
              (Inl e, rule') \<Rightarrow> (Raise e, rule')
            | (Inr False, rule') \<Rightarrow> (Continue ans, rule')
            | (Inr True, rule') \<Rightarrow>
                (let ans1 = ans\<lparr>is_mask := is_mask rule'\<rparr> in
                 if truthy (is_mask ans1) then (Break ans1, rule')
                 else (Continue (overwrite rule' ans1), rule'))))"

text \<open>The loop returns how it ended and the rules as it leaves them.\<close>

fun pass2 :: "resolver \<Rightarrow> meta \<Rightarrow> RuleMeta \<Rightarrow> RuleMeta list \<Rightarrow> outcome \<times> RuleMeta list" where
  "pass2 func_map meta ans [] = (Continue ans, [])"
| "pass2 func_map meta ans (rule # rs) =
     (case pass2_body func_map meta ans rule of
        (Continue ans', rule') \<Rightarrow>
          (case pass2 func_map meta ans' rs of (out, rs') \<Rightarrow> (out, rule' # rs'))
      | (Break ans', rule') \<Rightarrow> (Break ans', rule' # rs)
      | (Raise e, rule') \<Rightarrow> (Raise e, rule' # rs))"

text \<open>\<open>assert ans.method_account\<close>, \<open>assert ans.target_account\<close>\<close>

definition assert_accounts :: "RuleMeta \<Rightarrow> error + RuleMeta" where
  "assert_accounts ans =
     (if \<not> truthy (method_account ans) then Inl AssertionError
      else if \<not> truthy (target_account ans) then Inl AssertionError
      else Inr ans)"

text \<open>
  \<open>Ruler.match\<close>. Without a resolver the identity is used. The result comes with the
  engine as the call leaves it.
\<close>

definition default_func_map :: "resolver option \<Rightarrow> resolver" where
  "default_func_map func_map_arg = (case func_map_arg of None \<Rightarrow> (\<lambda>x. Some x) | Some f \<Rightarrow> f)"

definition match :: "Ruler \<Rightarrow> meta \<Rightarrow> resolver option \<Rightarrow> (error + RuleMeta) \<times> Ruler" where
  "match self meta func_map_arg =
     (let func_map = default_func_map func_map_arg in
      case DEFAULT_MINUS (config self) of
        None \<Rightarrow> (Inl KeyError, self)
      | Some dm \<Rightarrow>
          (case DEFAULT_PLUS (config self) of
             None \<Rightarrow> (Inl KeyError, self)
           | Some dp \<Rightarrow>
               (case assert_accounts (RuleMeta_init\<lparr>method_account := dm, target_account := dp\<rparr>) of
                  Inl e \<Rightarrow> (Inl e, self)
                | Inr ans0 \<Rightarrow>
                    (case pass1 func_map meta ans0 (rules self) of
                       Inl e \<Rightarrow> (Inl e, self)
                     | Inr ans1 \<Rightarrow>
                         (case assert_accounts ans1 of
                            Inl e \<Rightarrow> (Inl e, self)
                          | Inr ans2 \<Rightarrow>
                              (case pass2 func_map meta ans2 (rules self) of
                                 (Raise e, rs') \<Rightarrow> (Inl e, self\<lparr>rules := rs'\<rparr>)
                               | (Continue ans3, rs') \<Rightarrow>
                                   (assert_accounts ans3, self\<lparr>rules := rs'\<rparr>)
                               | (Break ans3, rs') \<Rightarrow>
                                   (assert_accounts ans3, self\<lparr>rules := rs'\<rparr>)))))))"

section \<open>Notions used in the statements\<close>

text \<open>A rule with its \<open>is_mask\<close> reset: two rules agree on every other attribute when these are equal.\<close>

definition unmask :: "RuleMeta \<Rightarrow> RuleMeta" where
  "unmask r = r\<lparr>is_mask := PNone\<rparr>"

text \<open>The resolved name of field \<open>k\<close> can be looked up in the record without a KeyError.\<close>

definition key_present :: "resolver \<Rightarrow> meta \<Rightarrow> field \<Rightarrow> bool" where
  "key_present func_map meta k =
     (case func_map (field_name k) of
        None \<Rightarrow> True
      | Some key \<Rightarrow> key = [] \<or> map_of meta key \<noteq> None)"

text \<open>A method rule whose \<open>txn_method\<close> equals the record's.\<close>

definition method_hit :: "resolver \<Rightarrow> meta \<Rightarrow> RuleMeta \<Rightarrow> bool" where
  "method_hit func_map meta rule =
     (is_txn_method rule \<and>
      resolved_eq func_map meta RULE_TXN_METHOD (getattr rule RULE_TXN_METHOD) = Inr True)"

text \<open>What the asserts of \<open>match\<close> ask of the result.\<close>

definition accounts_ok :: "RuleMeta \<Rightarrow> bool" where
  "accounts_ok ans = (truthy (method_account ans) \<and> truthy (target_account ans))"

text \<open>The result \<open>match\<close> starts from: a fresh \<open>RuleMeta\<close> holding the two defaults.\<close>

definition initial_ans :: "pyval \<Rightarrow> pyval \<Rightarrow> RuleMeta" where
  "initial_ans dm dp = RuleMeta_init\<lparr>method_account := dm, target_account := dp\<rparr>"

text \<open>
  A valid configuration: both defaults are present and true, and every rule passes
  \<open>check\<close>.
\<close>

definition valid_config :: "Ruler \<Rightarrow> pyval \<Rightarrow> pyval \<Rightarrow> bool" where
  "valid_config e dm dp =
     (DEFAULT_MINUS (config e) = Some dm \<and> DEFAULT_PLUS (config e) = Some dp \<and>
      truthy dm \<and> truthy dp \<and> list_all check (rules e))"

text \<open>What \<open>match\<close> returns after the second loop ended with the given outcome.\<close>

fun result_of :: "outcome \<Rightarrow> error + RuleMeta" where
  "result_of (Continue a) = Inr a"
| "result_of (Break a) = Inr a"
| "result_of (Raise e) = Inl e"


text \<open>
  The fields \<open>_match\<close> passes over, and the two it looks for in every value of the record;
  the others are compared with the record's value under the resolved name.
\<close>

definition modifier_field :: "field \<Rightarrow> bool" where
  "modifier_field k =
     (k = RULE_MINUS_ACCOUNT \<or> k = RULE_PLUS_ACCOUNT \<or> k = RULE_SEPERATOR \<or> k = RULE_TXN_EXCLUDE)"




text \<open>The string values of the record that contain \<open>m\<close>, in the order of its items.\<close>

definition mask_hits :: "string \<Rightarrow> meta \<Rightarrow> string list" where
  "mask_hits m meta =
     map str_of (filter (\<lambda>v. isinstance_str v \<and> str_contains m (str_of v)) (map snd meta))"

text \<open>A rule without separator whose only predicate field, if any, is \<open>txn_mask\<close>.\<close>

definition only_mask_rule :: "RuleMeta \<Rightarrow> bool" where
  "only_mask_rule r =
     (\<not> truthy (seperator r) \<and>
      (\<forall>k\<in>set get_fields. \<not> modifier_field k \<longrightarrow> k \<noteq> RULE_TXN_MASK \<longrightarrow> getattr r k = PNone))"


text \<open>The accounts of the rule are strings or \<open>None\<close>.\<close>

definition str_accounts :: "RuleMeta \<Rightarrow> bool" where
  "str_accounts r =
     ((method_account r = PNone \<or> isinstance_str (method_account r)) \<and>
      (target_account r = PNone \<or> isinstance_str (target_account r)))"

text \<open>The accounts that are set (true) on the rules.\<close>

definition rule_accounts :: "RuleMeta list \<Rightarrow> string list" where
  "rule_accounts rs =
     map str_of (filter truthy (concat (map (\<lambda>r. [method_account r, target_account r]) rs)))"


text \<open>An account of the rule is set (true) and cannot be a member of a set: a non-empty list.\<close>

definition unhashable_account :: "RuleMeta \<Rightarrow> bool" where
  "unhashable_account r =
     ((truthy (method_account r) \<and> \<not> hashable (method_account r)) \<or>
      (truthy (target_account r) \<and> \<not> hashable (target_account r)))"

subsection \<open>Examples\<close>

text \<open>
  The document with the two defaults of the repository's test and the given rule
  definitions, and the engine that \<open>Ruler_init\<close> builds from it.
\<close>

definition yaml :: "(string \<times> pyval) list list \<Rightarrow> Config" where
  "yaml defs = \<lparr> DEFAULT_MINUS = Some (PStr ''Assets:FIXME''),
                  DEFAULT_PLUS = Some (PStr ''Expenses:FIXME''),
                  rules_key = Some defs \<rparr>"

definition engine :: "(string \<times> pyval) list list \<Rightarrow> Ruler" where
  "engine defs = \<lparr> config = yaml defs, rules = map convert_rule defs \<rparr>"

definition d_mike :: "(string \<times> pyval) list" where
  "d_mike = [(''payee'', PStr ''mike''), (''target_account'', PStr ''Expenses:Food'')]"

definition d_mike_cash :: "(string \<times> pyval) list" where
  "d_mike_cash = [(''payee'', PStr ''mike''), (''txn_type'', PStr ''cash''),
                  (''method_account'', PStr ''Assets:Cash''), (''target_account'', PStr ''Expenses:Lunch'')]"

definition d_coffee :: "(string \<times> pyval) list" where
  "d_coffee = [(''item'', PStr ''coffee''), (''target_account'', PStr ''Expenses:Coffee'')]"

definition d_wechat :: "(string \<times> pyval) list" where
  "d_wechat = [(''txn_method'', PStr ''wechat''), (''method_account'', PStr ''Assets:Wechat'')]"

definition d_wechat_cash :: "(string \<times> pyval) list" where
  "d_wechat_cash = [(''txn_method'', PStr ''wechat''), (''method_account'', PStr ''Assets:Wechat:Cash'')]"

definition d_alipay :: "(string \<times> pyval) list" where
  "d_alipay = [(''txn_method'', PStr ''alipay''), (''method_account'', PStr ''Assets:Alipay'')]"

definition d_foo_mask :: "(string \<times> pyval) list" where
  "d_foo_mask = [(''txn_mask'', PStr ''foo''), (''method_account'', PStr ''Assets:Hidden''),
                 (''target_account'', PStr ''Expenses:Hidden'')]"

definition d_refund_mask :: "(string \<times> pyval) list" where
  "d_refund_mask = [(''txn_mask'', PStr ''refund''), (''target_account'', PStr ''Income:Refund'')]"

definition d_foo_bar :: "(string \<times> pyval) list" where
  "d_foo_bar = [(''txn_mask'', PStr ''foo''), (''txn_exclude'', PStr ''bar'')]"

text \<open>A rule with a list of accounts, as in the document of \<open>test_load_yaml\<close>.\<close>

definition d_list :: "(string \<times> pyval) list" where
  "d_list = [(''txn_type'', PStr ''/''), (''method_account'', PList [PStr ''a'', PStr ''b''])]"

text \<open>A document without \<open>default_method_account\<close> and with an empty \<open>default_target_account\<close>.\<close>

definition cfg_no_defaults :: Config where
  "cfg_no_defaults = \<lparr> DEFAULT_MINUS = None, DEFAULT_PLUS = Some (PStr []),
                        rules_key = Some [d_mike] \<rparr>"

definition meta_foo :: meta where
  "meta_foo = [(''payee'', PStr ''mike''), (''item'', PStr ''coffee''),
               (''txn_method'', PStr ''wechat''), (''memo'', PStr ''foo'')]"

definition meta_refund :: meta where
  "meta_refund = [(''txn_method'', PStr ''alipay''), (''note'', PStr ''refund 12'')]"

definition meta_lunch :: meta where
  "meta_lunch = [(''payee'', PStr ''mike''), (''item'', PStr ''coffee''), (''txn_type'', PStr ''cash'')]"

definition meta_tea :: meta where
  "meta_tea = [(''payee'', PStr ''mike''), (''item'', PStr ''tea''), (''txn_type'', PStr ''cash'')]"

section \<open>Auxiliary lemmas\<close>

subsection \<open>Only \<open>is_mask\<close> of a rule is ever written\<close>

lemma getattr_is_mask_update [simp]: "getattr (r\<lparr>is_mask := x\<rparr>) k = getattr r k"
  by (cases k) simp_all

lemma unmask_update [simp]: "unmask (r\<lparr>is_mask := x\<rparr>) = unmask r"
  by (simp add: unmask_def)

lemma getattr_unmask [simp]: "getattr (unmask r) k = getattr r k"
  by (simp add: unmask_def)

lemma unmask_getattr: "unmask r1 = unmask r2 \<Longrightarrow> getattr r1 k = getattr r2 k"
  by (metis getattr_unmask)


lemma is_txn_method_loop_getattr:
  "(\<And>k. getattr r1 k = getattr r2 k) \<Longrightarrow> is_txn_method_loop r1 ks n = is_txn_method_loop r2 ks n"
  by (induction ks arbitrary: n) auto

lemma check_loop_getattr:
  "(\<And>k. getattr r1 k = getattr r2 k) \<Longrightarrow> check_loop r1 ks n = check_loop r2 ks n"
  by (induction ks arbitrary: n) auto

lemma is_txn_method_unmask: "unmask r1 = unmask r2 \<Longrightarrow> is_txn_method r1 = is_txn_method r2"
  unfolding is_txn_method_def by (rule is_txn_method_loop_getattr) (rule unmask_getattr)

lemma check_unmask: "unmask r1 = unmask r2 \<Longrightarrow> check r1 = check r2"
  unfolding check_def using check_loop_getattr[of r1 r2 get_fields 0] unmask_getattr[of r1 r2] by simp

lemma scan_values_unmask: "unmask (snd (scan_values k v vals fc r)) = unmask r"
  by (induction vals arbitrary: fc r) (auto simp: Let_def)

lemma scan_meta_unmask: "unmask (snd (scan_meta k items vals fc r)) = unmask r"
proof (induction items arbitrary: fc r)
  case Nil then show ?case by simp
next
  case (Cons a items)
  obtain key v where a: "a = (key, v)" by (cases a)
  obtain res r' where s: "scan_values k v vals fc r = (res, r')" by (cases "scan_values k v vals fc r")
  have u: "unmask r' = unmask r" using scan_values_unmask[of k v vals fc r] s by simp
  show ?case using Cons.IH u by (cases res) (simp_all add: a s)
qed

lemma field_check_unmask:
  "unmask (snd (if k = RULE_TXN_META \<or> k = RULE_TXN_MASK
                then scan_meta k meta values False rule
                else (eq_values fm meta k values, rule))) = unmask rule"
  by (simp add: scan_meta_unmask)

lemma match_fields_unmask: "unmask (snd (match_fields fm meta r ks)) = unmask r"
proof (induction ks arbitrary: r)
  case Nil then show ?case by simp
next
  case (Cons k ks)
  let ?fc = "\<lambda>vals. (if k = RULE_TXN_META \<or> k = RULE_TXN_MASK
                then scan_meta k meta vals False r
                else (eq_values fm meta k vals, r))"
  show ?case
  proof (cases "k = RULE_MINUS_ACCOUNT \<or> k = RULE_PLUS_ACCOUNT \<or> k = RULE_SEPERATOR \<or> k = RULE_TXN_EXCLUDE \<or> getattr r k = PNone")
    case True
    then show ?thesis using Cons.IH by auto
  next
    case False
    show ?thesis
    proof (cases "split_values r (getattr r k)")
      case (Inl e)
      then show ?thesis using False by simp
    next
      case (Inr vals)
      obtain res r' where fc: "?fc vals = (res, r')" by (cases "?fc vals")
      have u: "unmask r' = unmask r" using field_check_unmask[of k meta vals r fm] fc by simp
      show ?thesis
      proof (cases res)
        case (Inl e)
        then show ?thesis using False Inr fc u by simp
      next
        case (Inr b)
        then show ?thesis using False \<open>split_values r (getattr r k) = Inr vals\<close> fc u Cons.IH[of r']
          by simp
      qed
    qed
  qed
qed

lemma match_rule_unmask: "unmask (snd (match_rule r meta fm)) = unmask r"
  by (simp add: match_rule_def match_fields_unmask)

subsection \<open>Method rules and the overwrite of the result\<close>

lemma is_txn_method_iff:
  "is_txn_method r \<longleftrightarrow>
     truthy (txn_method r) \<and> truthy (method_account r) \<and>
     \<not> truthy (payee r) \<and> \<not> truthy (item r) \<and> \<not> truthy (txn_type r) \<and>
     \<not> truthy (txn_inout r) \<and> \<not> truthy (start_time r) \<and> \<not> truthy (end_time r) \<and>
     \<not> truthy (target_account r) \<and> \<not> truthy (seperator r) \<and> \<not> truthy (txn_status r) \<and>
     \<not> truthy (txn_meta r) \<and> \<not> truthy (txn_input r) \<and> \<not> truthy (txn_output r) \<and>
     \<not> truthy (txn_mask r) \<and> \<not> truthy (txn_exclude r)"
  by (simp add: is_txn_method_def get_fields_def)

lemma getattr_setattr: "getattr (setattr a k v) k' = (if k' = k then v else getattr a k')"
  by (cases k; cases k'; simp)

lemma is_mask_setattr [simp]: "is_mask (setattr a k v) = is_mask a"
  by (cases k) simp_all

lemma accounts_setattr:
  "k \<noteq> RULE_MINUS_ACCOUNT \<Longrightarrow> method_account (setattr a k v) = method_account a"
  "k \<noteq> RULE_PLUS_ACCOUNT \<Longrightarrow> target_account (setattr a k v) = target_account a"
  by (cases k; simp)+

lemma copy_loop_getattr:
  "getattr (copy_loop r a ks) k =
     (if k \<in> set ks \<and> k \<noteq> RULE_MINUS_ACCOUNT \<and> k \<noteq> RULE_PLUS_ACCOUNT then getattr r k else getattr a k)"
proof (induction ks arbitrary: a k)
  case Nil then show ?case by simp
next
  case (Cons k' ks)
  show ?case by (auto simp: Cons.IH getattr_setattr simp del: getattr.simps)
qed

lemma copy_loop_is_mask [simp]: "is_mask (copy_loop r a ks) = is_mask a"
  by (induction ks arbitrary: a) auto

lemma copy_loop_accounts [simp]:
  "method_account (copy_loop r a ks) = method_account a"
  "target_account (copy_loop r a ks) = target_account a"
  using copy_loop_getattr[of r a ks RULE_MINUS_ACCOUNT] copy_loop_getattr[of r a ks RULE_PLUS_ACCOUNT]
  by simp_all

lemma overwrite_is_mask [simp]: "is_mask (overwrite r a) = is_mask a"
  by (simp add: overwrite_def Let_def)

lemma overwrite_method_account:
  "method_account (overwrite r a) = (if truthy (method_account r) then method_account r else method_account a)"
  by (simp add: overwrite_def Let_def)

lemma overwrite_target_account:
  "target_account (overwrite r a) = (if truthy (target_account r) then target_account r else target_account a)"
  by (simp add: overwrite_def Let_def)

lemma overwrite_getattr:
  "k \<in> set get_fields \<Longrightarrow> k \<noteq> RULE_MINUS_ACCOUNT \<Longrightarrow> k \<noteq> RULE_PLUS_ACCOUNT \<Longrightarrow>
     getattr (overwrite r a) k = getattr r k"
  by (simp add: overwrite_def Let_def copy_loop_getattr del: getattr.simps)

lemma field_in_get_fields: "k \<in> set get_fields"
  by (cases k) (simp_all add: get_fields_def)

lemma copy_loop_cong:
  "(\<And>k. getattr r1 k = getattr r2 k) \<Longrightarrow> copy_loop r1 a ks = copy_loop r2 a ks"
  by (induction ks arbitrary: a) auto

lemma overwrite_unmask: "unmask r1 = unmask r2 \<Longrightarrow> overwrite r1 a = overwrite r2 a"
  using copy_loop_cong[of r1 r2, OF unmask_getattr] unmask_getattr[of r1 r2]
  by (simp add: overwrite_def Let_def del: getattr.simps)

subsection \<open>The first loop\<close>

lemma resolved_eq_present:
  "key_present fm meta k \<Longrightarrow> \<exists>b. resolved_eq fm meta k v = Inr b"
  by (auto simp: key_present_def resolved_eq_def split: option.splits)



lemma pass1_filter:
  assumes "list_all check rs"
  shows "pass1 fm meta ans rs = pass1 fm meta ans (filter is_txn_method rs)"
  using assms
  by (induction rs arbitrary: ans) (auto split: sum.splits bool.splits)

subsection \<open>The second loop\<close>

lemma pass2_append_Continue:
  "pass2 fm meta a pre = (Continue a', pre') \<Longrightarrow>
   pass2 fm meta a (pre @ post) = (case pass2 fm meta a' post of (out, post') \<Rightarrow> (out, pre' @ post'))"
proof (induction pre arbitrary: a pre')
  case Nil then show ?case by simp
next
  case (Cons r pre)
  obtain out r' where b: "pass2_body fm meta a r = (out, r')" by (cases "pass2_body fm meta a r")
  show ?case
  proof (cases out)
    case (Continue a1)
    obtain out2 pre2 where p: "pass2 fm meta a1 pre = (out2, pre2)" by (cases "pass2 fm meta a1 pre")
    from Cons.prems b Continue p have "out2 = Continue a'" "pre' = r' # pre2" by auto
    with Cons.IH[of a1 pre2] p b Continue show ?thesis by (auto split: prod.splits)
  next
    case (Break a1) with Cons.prems b show ?thesis by simp
  next
    case (Raise e) with Cons.prems b show ?thesis by simp
  qed
qed

lemma pass2_body_method: "is_txn_method r \<Longrightarrow> pass2_body fm meta a r = (Continue a, r)"
  by (simp add: pass2_body_def)




subsection \<open>The asserts hold on a valid engine\<close>

lemma assert_accounts_ok: "accounts_ok ans \<Longrightarrow> assert_accounts ans = Inr ans"
  by (simp add: accounts_ok_def assert_accounts_def)

lemma accounts_ok_overwrite: "accounts_ok a \<Longrightarrow> accounts_ok (overwrite r (a\<lparr>is_mask := x\<rparr>))"
  by (simp add: accounts_ok_def overwrite_method_account overwrite_target_account)

lemma pass2_body_accounts_ok:
  "accounts_ok a \<Longrightarrow> pass2_body fm meta a r = (out, r') \<Longrightarrow>
     (case out of Continue a' \<Rightarrow> accounts_ok a' | Break a' \<Rightarrow> accounts_ok a' | Raise e \<Rightarrow> True)"
  by (auto simp: pass2_body_def Let_def accounts_ok_overwrite split: prod.splits sum.splits bool.splits if_splits)
     (simp_all add: accounts_ok_def)

lemma pass2_accounts_ok:
  "accounts_ok a \<Longrightarrow> pass2 fm meta a rs = (out, rs') \<Longrightarrow>
     (case out of Continue a' \<Rightarrow> accounts_ok a' | Break a' \<Rightarrow> accounts_ok a' | Raise e \<Rightarrow> True)"
proof (induction rs arbitrary: a out rs')
  case Nil then show ?case by auto
next
  case (Cons r rs)
  obtain o1 r' where b: "pass2_body fm meta a r = (o1, r')" by (cases "pass2_body fm meta a r")
  note ok = pass2_body_accounts_ok[OF Cons.prems(1) b]
  show ?case
  proof (cases o1)
    case (Continue a1)
    obtain o2 rs2 where p: "pass2 fm meta a1 rs = (o2, rs2)" by (cases "pass2 fm meta a1 rs")
    have "accounts_ok a1" using ok Continue by simp
    from Cons.IH[OF this p] Cons.prems(2) b Continue p show ?thesis by auto
  next
    case (Break a1) with Cons.prems b ok show ?thesis by auto
  next
    case (Raise e) with Cons.prems b show ?thesis by auto
  qed
qed

lemma pass1_accounts_ok:
  "accounts_ok a \<Longrightarrow> pass1 fm meta a rs = Inr a' \<Longrightarrow> accounts_ok a'"
proof (induction rs arbitrary: a)
  case Nil then show ?case by simp
next
  case (Cons r rs)
  show ?case
  proof (cases "is_txn_method r \<and> resolved_eq fm meta RULE_TXN_METHOD (getattr r RULE_TXN_METHOD) = Inr True")
    case True
    then have "truthy (method_account r)" by (simp add: is_txn_method_iff)
    then have "accounts_ok (a\<lparr>method_account := method_account r\<rparr>)"
      using Cons.prems(1) by (simp add: accounts_ok_def)
    from Cons.IH[OF this] Cons.prems(2) True show ?thesis by (auto split: if_splits)
  next
    case False
    with Cons.IH[OF Cons.prems(1)] Cons.prems(2) show ?thesis
      by (auto split: if_splits sum.splits bool.splits)
  qed
qed

lemma accounts_ok_initial: "truthy dm \<Longrightarrow> truthy dp \<Longrightarrow> accounts_ok (initial_ans dm dp)"
  by (simp add: accounts_ok_def initial_ans_def)

lemma match_valid:
  assumes "valid_config e dm dp"
  shows "match e meta fmo =
     (case pass1 (default_func_map fmo) meta (initial_ans dm dp) (rules e) of
        Inl err \<Rightarrow> (Inl err, e)
      | Inr a1 \<Rightarrow>
          (result_of (fst (pass2 (default_func_map fmo) meta a1 (rules e))),
           e\<lparr>rules := snd (pass2 (default_func_map fmo) meta a1 (rules e))\<rparr>))"
proof -
  let ?fm = "default_func_map fmo"
  have d: "DEFAULT_MINUS (config e) = Some dm" "DEFAULT_PLUS (config e) = Some dp"
    and ok0: "accounts_ok (initial_ans dm dp)"
    using assms by (simp_all add: valid_config_def accounts_ok_initial)
  show ?thesis
  proof (cases "pass1 ?fm meta (initial_ans dm dp) (rules e)")
    case (Inl err)
    then show ?thesis
      using d assert_accounts_ok[OF ok0] by (simp add: match_def initial_ans_def)
  next
    case (Inr a1)
    have ok1: "accounts_ok a1" using pass1_accounts_ok[OF ok0 Inr] .
    obtain out rs' where p: "pass2 ?fm meta a1 (rules e) = (out, rs')"
      by (cases "pass2 ?fm meta a1 (rules e)")
    note ok2 = pass2_accounts_ok[OF ok1 p]
    have "match e meta fmo = (result_of out, e\<lparr>rules := rs'\<rparr>)"
      using d assert_accounts_ok[OF ok0] assert_accounts_ok[OF ok1] Inr p ok2
      by (cases out) (simp_all add: match_def initial_ans_def[symmetric] assert_accounts_ok)
    then show ?thesis using Inr p by simp
  qed
qed

subsection \<open>Where the second loop stops\<close>

lemma pass1_no_hit:
  assumes "list_all check rs"
    and "\<forall>r\<in>set rs. is_txn_method r \<longrightarrow>
           resolved_eq fm meta RULE_TXN_METHOD (getattr r RULE_TXN_METHOD) = Inr False"
  shows "pass1 fm meta a rs = Inr a"
  using assms by (induction rs) auto

lemma pass2_no_match:
  assumes "list_all check rs"
    and "\<forall>r\<in>set rs. \<not> is_txn_method r \<longrightarrow> fst (match_rule r meta fm) = Inr False"
  shows "fst (pass2 fm meta a rs) = Continue a"
  using assms
proof (induction rs)
  case Nil then show ?case by simp
next
  case (Cons r rs)
  have "fst (pass2_body fm meta a r) = Continue a"
    using Cons.prems by (cases "match_rule r meta fm") (auto simp: pass2_body_def)
  then obtain r' where "pass2_body fm meta a r = (Continue a, r')"
    by (cases "pass2_body fm meta a r") auto
  then show ?case using Cons by (simp add: split_beta)
qed

lemma pass2_body_mask:
  assumes "\<not> is_txn_method r" "check r" "match_rule r meta fm = (Inr True, r')" "truthy (is_mask r')"
  shows "pass2_body fm meta a r = (Break (a\<lparr>is_mask := is_mask r'\<rparr>), r')"
  using assms by (simp add: pass2_body_def Let_def)

lemma pass2_body_overwrite:
  assumes "\<not> is_txn_method r" "check r" "match_rule r meta fm = (Inr True, r')" "\<not> truthy (is_mask r')"
  shows "pass2_body fm meta a r = (Continue (overwrite r' (a\<lparr>is_mask := is_mask r'\<rparr>)), r')"
  using assms by (simp add: pass2_body_def Let_def)

lemma pass2_break_at:
  assumes "pass2 fm meta a pre = (Continue a', pre')"
    and "\<not> is_txn_method r" "check r" "match_rule r meta fm = (Inr True, r')" "truthy (is_mask r')"
  shows "pass2 fm meta a (pre @ r # post) = (Break (a'\<lparr>is_mask := is_mask r'\<rparr>), pre' @ r' # post)"
  by (simp add: pass2_append_Continue[OF assms(1)] pass2_body_mask[OF assms(2-5)])

lemma pass2_no_match_full:
  assumes "list_all check rs"
    and "\<forall>r\<in>set rs. \<not> is_txn_method r \<longrightarrow> fst (match_rule r meta fm) = Inr False"
  shows "\<exists>rs'. pass2 fm meta a rs = (Continue a, rs')"
  using pass2_no_match[OF assms, of a] by (cases "pass2 fm meta a rs") auto

lemma pass2_last_at:
  assumes "pass2 fm meta a pre = (Continue a', pre')"
    and "\<not> is_txn_method r" "check r" "match_rule r meta fm = (Inr True, r')" "\<not> truthy (is_mask r')"
    and "list_all check post"
    and "\<forall>r\<in>set post. \<not> is_txn_method r \<longrightarrow> fst (match_rule r meta fm) = Inr False"
  shows "fst (pass2 fm meta a (pre @ r # post)) = Continue (overwrite r' (a'\<lparr>is_mask := is_mask r'\<rparr>))"
proof -
  obtain post' where "pass2 fm meta (overwrite r' (a'\<lparr>is_mask := is_mask r'\<rparr>)) post
      = (Continue (overwrite r' (a'\<lparr>is_mask := is_mask r'\<rparr>)), post')"
    using pass2_no_match_full[OF assms(6,7)] by blast
  then show ?thesis
    by (simp add: pass2_append_Continue[OF assms(1)] pass2_body_overwrite[OF assms(2-5)])
qed

lemma valid_config_check: "valid_config e dm dp \<Longrightarrow> list_all check (rules e)"
  by (simp add: valid_config_def)

lemma pass1_drop_non_method:
  assumes "list_all check (pre @ r # post)" "\<not> is_txn_method r"
  shows "pass1 fm meta a (pre @ r # post) = pass1 fm meta a (pre @ post)"
proof -
  have "list_all check (pre @ post)" using assms(1) by simp
  from pass1_filter[OF assms(1), of fm meta a] pass1_filter[OF this, of fm meta a] assms(2)
  show ?thesis by simp
qed

subsection \<open>The constructor\<close>



subsection \<open>No error when the keys are present\<close>













subsection \<open>A rule with \<open>txn_mask\<close> and \<open>txn_exclude\<close>\<close>

lemma check_loop_le:
  "check_loop r ks c \<le> c + length (filter (\<lambda>k. k \<noteq> RULE_PLUS_ACCOUNT \<and> k \<noteq> RULE_MINUS_ACCOUNT) ks)"
proof (induction ks arbitrary: c)
  case Nil then show ?case by simp
next
  case (Cons k ks)
  show ?case using Cons.IH[of c] Cons.IH[of "Suc c"] by (auto simp del: getattr.simps)
qed

lemma check_loop_less:
  "\<exists>k\<in>set ks. k \<noteq> RULE_PLUS_ACCOUNT \<and> k \<noteq> RULE_MINUS_ACCOUNT \<and> getattr r k \<noteq> PNone \<Longrightarrow>
   check_loop r ks c < c + length (filter (\<lambda>k. k \<noteq> RULE_PLUS_ACCOUNT \<and> k \<noteq> RULE_MINUS_ACCOUNT) ks)"
proof (induction ks arbitrary: c)
  case Nil then show ?case by simp
next
  case (Cons k ks)
  show ?case
  proof (cases "k \<noteq> RULE_PLUS_ACCOUNT \<and> k \<noteq> RULE_MINUS_ACCOUNT \<and> getattr r k \<noteq> PNone")
    case True
    then show ?thesis using check_loop_le[of r ks c] by (simp del: getattr.simps)
  next
    case False
    then have "\<exists>k\<in>set ks. k \<noteq> RULE_PLUS_ACCOUNT \<and> k \<noteq> RULE_MINUS_ACCOUNT \<and> getattr r k \<noteq> PNone"
      using Cons.prems by auto
    from Cons.IH[OF this] False show ?thesis
      using Cons.IH[OF \<open>\<exists>k\<in>set ks. k \<noteq> RULE_PLUS_ACCOUNT \<and> k \<noteq> RULE_MINUS_ACCOUNT \<and> getattr r k \<noteq> PNone\<close>, of "Suc c"]
      by (auto simp del: getattr.simps)
  qed
qed

lemma check_if_set:
  assumes "k \<noteq> RULE_PLUS_ACCOUNT" "k \<noteq> RULE_MINUS_ACCOUNT" "getattr r k \<noteq> PNone"
  shows "check r"
proof -
  have "\<exists>k\<in>set get_fields. k \<noteq> RULE_PLUS_ACCOUNT \<and> k \<noteq> RULE_MINUS_ACCOUNT \<and> getattr r k \<noteq> PNone"
    using assms field_in_get_fields by blast
  from check_loop_less[OF this, of 0] show ?thesis
    by (simp add: check_def) (simp add: get_fields_def)
qed

lemma scan_values_mask_single:
  assumes "txn_exclude r = PStr x" "x \<noteq> []"
  shows "scan_values RULE_TXN_MASK v [PStr m] fc r =
     (if isinstance_str v \<and> str_contains m (str_of v)
      then (Inr True, r\<lparr>is_mask := PBool (\<not> str_contains x (str_of v))\<rparr>)
      else (Inr fc, r))"
  using assms by (simp add: Let_def)

lemma scan_meta_mask_single:
  assumes "txn_exclude r = PStr x" "x \<noteq> []"
  shows "scan_meta RULE_TXN_MASK meta [PStr m] fc r =
     (case mask_hits m meta of
        [] \<Rightarrow> (Inr fc, r)
      | h # hs \<Rightarrow> (Inr True, r\<lparr>is_mask := PBool (\<not> str_contains x (last (h # hs)))\<rparr>))"
  using assms
proof (induction meta arbitrary: fc r)
  case Nil then show ?case by (simp add: mask_hits_def)
next
  case (Cons a meta)
  obtain key v where a: "a = (key, v)" by (cases a)
  show ?case
  proof (cases "isinstance_str v \<and> str_contains m (str_of v)")
    case True
    let ?r = "r\<lparr>is_mask := PBool (\<not> str_contains x (str_of v))\<rparr>"
    have e: "txn_exclude ?r = PStr x" using Cons.prems by simp
    have h: "mask_hits m (a # meta) = str_of v # mask_hits m meta"
      using True by (simp add: mask_hits_def a)
    show ?thesis
      unfolding h using True Cons.IH[OF e Cons.prems(2), of True]
      by (simp add: a scan_values_mask_single[OF Cons.prems] del: scan_values.simps split: list.splits)
  next
    case False
    have h: "mask_hits m (a # meta) = mask_hits m meta"
      using False by (auto simp: mask_hits_def a)
    show ?thesis
      unfolding h using False Cons.IH[OF Cons.prems, of fc]
      by (auto simp: a scan_values_mask_single[OF Cons.prems] simp del: scan_values.simps)
  qed
qed

lemma only_mask_rule_fields:
  assumes "only_mask_rule r"
  shows "payee r = PNone" "item r = PNone" "txn_type r = PNone" "txn_method r = PNone"
    "txn_inout r = PNone" "start_time r = PNone" "end_time r = PNone" "txn_status r = PNone"
    "txn_meta r = PNone" "txn_input r = PNone" "txn_output r = PNone" "\<not> truthy (seperator r)"
  using assms by (simp_all add: only_mask_rule_def get_fields_def modifier_field_def)

lemma match_rule_only_mask:
  assumes "only_mask_rule r" "txn_mask r = PStr m" "txn_exclude r = PStr x" "x \<noteq> []"
  shows "match_rule r meta fm =
     (case mask_hits m meta of
        [] \<Rightarrow> (Inr False, r)
      | h # hs \<Rightarrow> (Inr True, r\<lparr>is_mask := PBool (\<not> str_contains x (last (h # hs)))\<rparr>))"
  using only_mask_rule_fields[OF assms(1)] assms(2)
  by (simp add: match_rule_def get_fields_def split_values_def scan_meta_mask_single[OF assms(3,4)]
           split: list.splits)

subsection \<open>A flag left by an earlier call is not read\<close>















lemma check_unmask_eq [simp]: "check (unmask r) = check r"
  by (rule check_unmask) (simp add: unmask_def)

lemma is_txn_method_unmask_eq [simp]: "is_txn_method (unmask r) = is_txn_method r"
  by (rule is_txn_method_unmask) (simp add: unmask_def)







lemma is_mask_copy_fields [simp]: "is_mask (copy_fields cfg r fs) = is_mask r"
  by (induction fs arbitrary: r) (auto split: option.splits)


subsection \<open>The accounts of an engine\<close>

lemma set_member_strs: "set_member (PStr s) (map PStr xs) = (s \<in> set xs)"
  by (induction xs) (auto simp: set_member_def)

lemma add_account_str:
  assumes "acc = PNone \<or> isinstance_str acc" "distinct xs"
  shows "\<exists>ys. add_account acc (map PStr xs) = Inr (map PStr ys) \<and> distinct ys \<and>
           set ys = set xs \<union> set (map str_of (filter truthy [acc]))"
proof (cases acc)
  case PNone
  then show ?thesis using assms(2) by (auto simp: add_account_def)
next
  case (PStr s)
  show ?thesis
  proof (cases "s \<noteq> [] \<and> s \<notin> set xs")
    case True
    have "add_account acc (map PStr xs) = Inr (map PStr (xs @ [s]))"
      using True PStr by (simp add: add_account_def set_member_strs)
    moreover have "distinct (xs @ [s])" using True assms(2) by simp
    moreover have "set (xs @ [s]) = set xs \<union> set (map str_of (filter truthy [acc]))"
      using True PStr by auto
    ultimately show ?thesis by blast
  next
    case False
    have "add_account acc (map PStr xs) = Inr (map PStr xs)"
      using False PStr by (auto simp: add_account_def set_member_strs)
    moreover have "set xs = set xs \<union> set (map str_of (filter truthy [acc]))"
      using False PStr by auto
    ultimately show ?thesis using assms(2) by blast
  qed
qed (use assms in simp_all)

lemma rule_accounts_Cons:
  "rule_accounts (r # rs) =
     map str_of (filter truthy [method_account r]) @ map str_of (filter truthy [target_account r]) @
     rule_accounts rs"
  by (simp add: rule_accounts_def)

lemma garther_loop_strs:
  assumes "\<forall>r\<in>set rs. str_accounts r" "distinct xs"
  shows "\<exists>ys. garther_loop rs (map PStr xs) = Inr (map PStr ys) \<and> distinct ys \<and>
           set ys = set xs \<union> set (rule_accounts rs)"
  using assms
proof (induction rs arbitrary: xs)
  case Nil then show ?case by (auto simp: rule_accounts_def)
next
  case (Cons r rs)
  have t: "method_account r = PNone \<or> isinstance_str (method_account r)"
          "target_account r = PNone \<or> isinstance_str (target_account r)"
    using Cons.prems(1) by (simp_all add: str_accounts_def)
  obtain ys1 where y1: "add_account (method_account r) (map PStr xs) = Inr (map PStr ys1)"
      "distinct ys1" "set ys1 = set xs \<union> set (map str_of (filter truthy [method_account r]))"
    using add_account_str[OF t(1) Cons.prems(2)] by blast
  obtain ys2 where y2: "add_account (target_account r) (map PStr ys1) = Inr (map PStr ys2)"
      "distinct ys2" "set ys2 = set ys1 \<union> set (map str_of (filter truthy [target_account r]))"
    using add_account_str[OF t(2) y1(2)] by blast
  have "\<forall>r\<in>set rs. str_accounts r" using Cons.prems(1) by simp
  from Cons.IH[OF this y2(2)] obtain ys where
    ys: "garther_loop rs (map PStr ys2) = Inr (map PStr ys)" "distinct ys"
        "set ys = set ys2 \<union> set (rule_accounts rs)" by blast
  have "garther_loop (r # rs) (map PStr xs) = Inr (map PStr ys)"
    by (simp add: y1(1) y2(1) ys(1))
  moreover have "set ys = set xs \<union> set (rule_accounts (r # rs))"
    unfolding ys(3) y2(3) y1(3) rule_accounts_Cons by auto
  ultimately show ?case using ys(2) by blast
qed

lemma sort_short: "length (xs :: string list) \<le> 1 \<Longrightarrow> sort xs = xs"
  by (cases xs) (auto simp: length_Suc_conv)

lemma py_sort_strs: "py_sort (map PStr ys) = Inr (map PStr (sort ys))"
proof -
  have a: "list_all isinstance_str (map PStr ys)" by (induction ys) auto
  have m: "map str_of (map PStr ys) = ys" by (induction ys) auto
  show ?thesis using a m sort_short[of ys] by (simp add: py_sort_def)
qed

subsection \<open>Fields the resolver does not name, and absent keys\<close>


lemma resolved_eq_KeyError: "resolved_eq fm meta k v = Inl KeyError \<longleftrightarrow> \<not> key_present fm meta k"
  by (auto simp: resolved_eq_def key_present_def split: option.splits)





subsection \<open>The second loop and \<open>method_account\<close>\<close>



subsection \<open>Both passes when no rule matches\<close>

lemma resolved_eq_absent: "\<not> key_present fm meta k \<Longrightarrow> resolved_eq fm meta k v = Inl KeyError"
  by (simp add: resolved_eq_KeyError)

lemma pass1_absent:
  assumes "list_all check rs" "\<not> key_present fm meta RULE_TXN_METHOD" "list_ex is_txn_method rs"
  shows "pass1 fm meta a rs = Inl KeyError"
  using assms
proof (induction rs arbitrary: a)
  case Nil then show ?case by simp
next
  case (Cons r rs)
  show ?case
  proof (cases "is_txn_method r")
    case True
    then show ?thesis using Cons.prems(1) resolved_eq_absent[OF Cons.prems(2)] by simp
  next
    case False
    then show ?thesis using Cons by simp
  qed
qed

lemma pass1_no_method_hit:
  assumes "list_all check rs" "\<forall>r\<in>set rs. \<not> method_hit fm meta r"
  shows "pass1 fm meta a rs =
     (if list_ex is_txn_method rs \<and> \<not> key_present fm meta RULE_TXN_METHOD then Inl KeyError else Inr a)"
proof (cases "key_present fm meta RULE_TXN_METHOD")
  case True
  have "\<forall>r\<in>set rs. is_txn_method r \<longrightarrow>
           resolved_eq fm meta RULE_TXN_METHOD (getattr r RULE_TXN_METHOD) = Inr False"
  proof (intro ballI impI)
    fix r assume r: "r \<in> set rs" "is_txn_method r"
    obtain b where b: "resolved_eq fm meta RULE_TXN_METHOD (getattr r RULE_TXN_METHOD) = Inr b"
      using resolved_eq_present[OF True] by blast
    have "\<not> b" using assms(2) r b by (auto simp: method_hit_def)
    then show "resolved_eq fm meta RULE_TXN_METHOD (getattr r RULE_TXN_METHOD) = Inr False"
      using b by simp
  qed
  from pass1_no_hit[OF assms(1) this] True show ?thesis by simp
next
  case False
  show ?thesis
  proof (cases "list_ex is_txn_method rs")
    case True
    then show ?thesis using pass1_absent[OF assms(1) False True] False by simp
  next
    case nm: False
    then have "\<forall>r\<in>set rs. is_txn_method r \<longrightarrow>
           resolved_eq fm meta RULE_TXN_METHOD (getattr r RULE_TXN_METHOD) = Inr False"
      by (auto simp: list_ex_iff)
    from pass1_no_hit[OF assms(1) this] nm show ?thesis by simp
  qed
qed

lemma pass2_body_no_success:
  assumes "check r" "\<not> is_txn_method r" "fst (match_rule r meta fm) \<noteq> Inr True"
  shows "fst (pass2_body fm meta a r) =
     (case fst (match_rule r meta fm) of Inl err \<Rightarrow> Raise err | Inr b \<Rightarrow> Continue a)"
proof -
  obtain res r' where m: "match_rule r meta fm = (res, r')" by (cases "match_rule r meta fm")
  show ?thesis
  proof (cases res)
    case (Inl err)
    then show ?thesis using assms m by (simp add: pass2_body_def)
  next
    case (Inr b)
    then have "\<not> b" using assms(3) m by auto
    then show ?thesis using assms m Inr by (simp add: pass2_body_def)
  qed
qed

lemma pass2_no_success:
  assumes "list_all check rs"
    and "\<forall>r\<in>set rs. \<not> is_txn_method r \<longrightarrow> fst (match_rule r meta fm) \<noteq> Inr True"
  shows "fst (pass2 fm meta a rs) =
     (case filter (\<lambda>r. \<not> is_txn_method r \<and> fst (match_rule r meta fm) \<noteq> Inr False) rs of
        [] \<Rightarrow> Continue a
      | r # rest \<Rightarrow> (case fst (match_rule r meta fm) of Inl err \<Rightarrow> Raise err | Inr b \<Rightarrow> Continue a))"
  using assms
proof (induction rs)
  case Nil then show ?case by simp
next
  case (Cons r rs)
  have c: "check r" "list_all check rs" using Cons.prems(1) by simp_all
  note ih = Cons.IH[OF c(2)]
  show ?case
  proof (cases "is_txn_method r")
    case True
    then show ?thesis using ih Cons.prems(2) by (simp add: pass2_body_method split_beta)
  next
    case False
    have ns: "fst (match_rule r meta fm) \<noteq> Inr True" using Cons.prems(2) False by simp
    note b = pass2_body_no_success[OF c(1) False ns, of a]
    obtain out r' where pb: "pass2_body fm meta a r = (out, r')" by (cases "pass2_body fm meta a r")
    show ?thesis
    proof (cases "fst (match_rule r meta fm)")
      case (Inl err)
      then have "out = Raise err" using b pb by simp
      then show ?thesis using pb Inl False by simp
    next
      case (Inr bb)
      then have f: "fst (match_rule r meta fm) = Inr False" using ns by (cases bb) simp_all
      then have "out = Continue a" using b pb by simp
      then show ?thesis using pb f False ih Cons.prems(2) by (simp add: split_beta)
    qed
  qed
qed

subsection \<open>Accounts that are lists\<close>

lemma add_account_error: "add_account acc ans = Inl err \<Longrightarrow> err = TypeError"
  by (auto simp: add_account_def split: if_splits)

lemma add_account_unhashable: "truthy acc \<Longrightarrow> \<not> hashable acc \<Longrightarrow> add_account acc ans = Inl TypeError"
  by (simp add: add_account_def)

lemma garther_loop_unhashable:
  "list_ex unhashable_account rs \<Longrightarrow> garther_loop rs ans = Inl TypeError"
proof (induction rs arbitrary: ans)
  case Nil then show ?case by simp
next
  case (Cons r rs)
  show ?case
  proof (cases "add_account (method_account r) ans")
    case (Inl err)
    then show ?thesis using add_account_error[OF Inl] by simp
  next
    case a1: (Inr ans1)
    show ?thesis
    proof (cases "add_account (target_account r) ans1")
      case (Inl err)
      then show ?thesis using a1 add_account_error[OF Inl] by simp
    next
      case a2: (Inr ans2)
      have "\<not> unhashable_account r"
        using a1 a2 add_account_unhashable[of "method_account r" ans]
          add_account_unhashable[of "target_account r" ans1]
        by (auto simp: unhashable_account_def)
      then have "list_ex unhashable_account rs" using Cons.prems by simp
      from Cons.IH[OF this] show ?thesis using a1 a2 by simp
    qed
  qed
qed

subsection \<open>Unfolding the model on the examples\<close>

lemmas eval_defs = valid_config_def check_def get_fields_def RuleMeta_init_def is_txn_method_def
  resolved_eq_def default_func_map_def match_rule_def split_values_def

lemmas run_defs = eval_defs pass2_body_def overwrite_def Let_def initial_ans_def match_def
  assert_accounts_def Ruler_init_def convert_to_rules_def convert_rule_def yaml_def engine_def
  d_mike_def d_mike_cash_def d_coffee_def d_wechat_def d_wechat_cash_def d_alipay_def
  d_foo_mask_def d_refund_mask_def d_foo_bar_def cfg_no_defaults_def
  meta_foo_def meta_refund_def meta_lunch_def meta_tea_def

section \<open>The claims\<close>




text \<open>
  C2 as stated fails on a later method rule: with the mask rule alone the result holds the
  default \<open>method_account\<close>; with a method rule after it, whose \<open>txn_method\<close> equals the
  record's, the result holds that rule's \<open>method_account\<close>.
\<close>

theorem mask_stops_pass2_counterexample:
  "Ruler_init (Some (yaml [d_foo_mask, d_wechat])) = Inr (engine [d_foo_mask, d_wechat]) \<and>
   Ruler_init (Some (yaml [d_foo_mask])) = Inr (engine [d_foo_mask]) \<and>
   match_rule (convert_rule d_foo_mask) meta_foo (default_func_map None) =
     (Inr True, (convert_rule d_foo_mask)\<lparr>is_mask := PBool True\<rparr>) \<and>
   fst (match (engine [d_foo_mask, d_wechat]) meta_foo None) =
     Inr ((initial_ans (PStr ''Assets:Wechat'') (PStr ''Expenses:FIXME''))\<lparr>is_mask := PBool True\<rparr>) \<and>
   fst (match (engine [d_foo_mask]) meta_foo None) =
     Inr ((initial_ans (PStr ''Assets:FIXME'') (PStr ''Expenses:FIXME''))\<lparr>is_mask := PBool True\<rparr>)"
  by (simp add: run_defs)

text \<open>
  C2 (as amended). Let Pass 2 of \<open>match\<close> on a valid engine come to a rule \<open>r\<close> that is
  not a method rule, whose predicate succeeds and leaves \<open>is_mask\<close> true. Then the loop
  stops there: the result is the one built so far with \<open>is_mask\<close> set to the rule's, the
  rules after \<open>r\<close> are left as they were, and an engine that differs only in the rules
  after \<open>r\<close> that are not method rules returns the same result. (The method rules after
  \<open>r\<close> have acted in Pass 1, which runs over the whole list before Pass 2.)
\<close>

theorem mask_stops_pass2:
  assumes "valid_config e dm dp" and "valid_config e' dm dp"
    and "rules e = pre @ r # post" and "rules e' = pre @ r # post'"
    and "filter is_txn_method post' = filter is_txn_method post"
    and "pass1 (default_func_map fmo) meta (initial_ans dm dp) (rules e) = Inr a1"
    and "pass2 (default_func_map fmo) meta a1 pre = (Continue a', pre')"
    and "\<not> is_txn_method r"
    and "match_rule r meta (default_func_map fmo) = (Inr True, r')"
    and "truthy (is_mask r')"
  shows "fst (match e meta fmo) = Inr (a'\<lparr>is_mask := is_mask r'\<rparr>) \<and>
         fst (match e' meta fmo) = fst (match e meta fmo) \<and>
         rules (snd (match e meta fmo)) = pre' @ r' # post \<and>
         rules (snd (match e' meta fmo)) = pre' @ r' # post'"
proof -
  let ?fm = "default_func_map fmo"
  have c: "list_all check (pre @ r # post)" "list_all check (pre @ r # post')"
    using valid_config_check[OF assms(1)] valid_config_check[OF assms(2)] assms(3,4) by simp_all
  then have cr: "check r" by simp
  have "pass1 ?fm meta (initial_ans dm dp) (pre @ r # post') =
        pass1 ?fm meta (initial_ans dm dp) (pre @ r # post)"
    using pass1_filter[OF c(1), of ?fm meta "initial_ans dm dp"]
          pass1_filter[OF c(2), of ?fm meta "initial_ans dm dp"] assms(5) by simp
  then have p1: "pass1 ?fm meta (initial_ans dm dp) (rules e') = Inr a1"
    using assms(6) by (simp add: assms(3,4))
  have "match e meta fmo = (Inr (a'\<lparr>is_mask := is_mask r'\<rparr>), e\<lparr>rules := pre' @ r' # post\<rparr>)"
    using assms(6) by (simp add: match_valid[OF assms(1)] assms(3) pass2_break_at[OF assms(7,8) cr assms(9,10)])
  moreover have "match e' meta fmo = (Inr (a'\<lparr>is_mask := is_mask r'\<rparr>), e'\<lparr>rules := pre' @ r' # post'\<rparr>)"
    using p1 by (simp add: match_valid[OF assms(2)] assms(4) pass2_break_at[OF assms(7,8) cr assms(9,10)])
  ultimately show ?thesis by simp
qed

theorem mask_stops_pass2_witness:
  "fst (match (engine [d_mike, d_foo_mask, d_coffee, d_wechat]) meta_foo None) =
     Inr ((overwrite (convert_rule d_mike) (initial_ans (PStr ''Assets:Wechat'') (PStr ''Expenses:FIXME'')))
            \<lparr>is_mask := PBool True\<rparr>) \<and>
   fst (match (engine [d_mike, d_foo_mask, d_wechat]) meta_foo None) =
   fst (match (engine [d_mike, d_foo_mask, d_coffee, d_wechat]) meta_foo None) \<and>
   match_rule (convert_rule d_coffee) meta_foo (default_func_map None) = (Inr True, convert_rule d_coffee)"
proof -
  let ?e = "engine [d_mike, d_foo_mask, d_coffee, d_wechat]"
  let ?e' = "engine [d_mike, d_foo_mask, d_wechat]"
  let ?dm = "PStr ''Assets:FIXME''" and ?dp = "PStr ''Expenses:FIXME''"
  let ?fm = "default_func_map None"
  let ?a1 = "initial_ans (PStr ''Assets:Wechat'') (PStr ''Expenses:FIXME'')"
  let ?r = "convert_rule d_foo_mask"
  have v: "valid_config ?e ?dm ?dp" and v': "valid_config ?e' ?dm ?dp"
    by (simp_all add: run_defs)
  have r: "rules ?e = [convert_rule d_mike] @ ?r # [convert_rule d_coffee, convert_rule d_wechat]"
    and r': "rules ?e' = [convert_rule d_mike] @ ?r # [convert_rule d_wechat]"
    by (simp_all add: engine_def)
  have f: "filter is_txn_method [convert_rule d_wechat] =
           filter is_txn_method [convert_rule d_coffee, convert_rule d_wechat]"
    by (simp add: run_defs)
  have p1: "pass1 ?fm meta_foo (initial_ans ?dm ?dp) (rules ?e) = Inr ?a1"
    by (simp add: run_defs)
  have p2: "pass2 ?fm meta_foo ?a1 [convert_rule d_mike] =
              (Continue (overwrite (convert_rule d_mike) ?a1), [convert_rule d_mike])"
    by (simp add: run_defs)
  have n: "\<not> is_txn_method ?r" by (simp add: run_defs)
  have m: "match_rule ?r meta_foo ?fm = (Inr True, ?r\<lparr>is_mask := PBool True\<rparr>)"
    by (simp add: run_defs)
  have t: "truthy (is_mask (?r\<lparr>is_mask := PBool True\<rparr>))" by simp
  have c: "match_rule (convert_rule d_coffee) meta_foo ?fm = (Inr True, convert_rule d_coffee)"
    by (simp add: run_defs)
  show ?thesis using mask_stops_pass2[OF v v' r r' f p1 p2 n m t] c by simp
qed

text \<open>
  C3 as stated fails when a third rule matches after the two: the rule of \<open>d_mike\<close> and
  the later rule of \<open>d_mike_cash\<close> both match the record and set \<open>target_account\<close>, and
  the result holds the \<open>target_account\<close> of the rule of \<open>d_coffee\<close>, which comes after
  them.
\<close>

theorem last_match_wins_counterexample:
  "Ruler_init (Some (yaml [d_mike, d_mike_cash, d_coffee])) = Inr (engine [d_mike, d_mike_cash, d_coffee]) \<and>
   match_rule (convert_rule d_mike) meta_lunch (default_func_map None) = (Inr True, convert_rule d_mike) \<and>
   match_rule (convert_rule d_mike_cash) meta_lunch (default_func_map None) =
     (Inr True, convert_rule d_mike_cash) \<and>
   \<not> is_txn_method (convert_rule d_mike) \<and> \<not> is_txn_method (convert_rule d_mike_cash) \<and>
   is_mask (convert_rule d_mike) = PNone \<and> is_mask (convert_rule d_mike_cash) = PNone \<and>
   target_account (convert_rule d_mike) = PStr ''Expenses:Food'' \<and>
   target_account (convert_rule d_mike_cash) = PStr ''Expenses:Lunch'' \<and>
   fst (match (engine [d_mike, d_mike_cash, d_coffee]) meta_lunch None) =
     Inr (overwrite (convert_rule d_coffee) (initial_ans (PStr ''Assets:Cash'') (PStr ''Expenses:FIXME''))) \<and>
   target_account (overwrite (convert_rule d_coffee) (initial_ans (PStr ''Assets:Cash'') (PStr ''Expenses:FIXME''))) =
     PStr ''Expenses:Coffee''"
  by (simp add: run_defs)

text \<open>
  C3 (as amended). Let Pass 2 come to a rule \<open>r2\<close> that is not a method rule, whose predicate
  succeeds without a true \<open>is_mask\<close> and which has a \<open>target_account\<close>, and let no rule
  after \<open>r2\<close> have a predicate that succeeds. Then \<open>match\<close> returns a result with the
  \<open>target_account\<close> of \<open>r2\<close> and with every field of \<open>get_fields\<close> other than the two
  accounts equal to that of \<open>r2\<close>, whatever the matching rules before \<open>r2\<close> had set;
  \<open>method_account\<close> is that of \<open>r2\<close> when it has one, and the earlier one otherwise.
\<close>

theorem last_match_wins:
  assumes "valid_config e dm dp" and "rules e = pre @ r2 # post"
    and "pass1 (default_func_map fmo) meta (initial_ans dm dp) (rules e) = Inr a1"
    and "pass2 (default_func_map fmo) meta a1 pre = (Continue a', pre')"
    and "\<not> is_txn_method r2"
    and "match_rule r2 meta (default_func_map fmo) = (Inr True, r2')"
    and "\<not> truthy (is_mask r2')"
    and "truthy (target_account r2)"
    and "\<forall>r\<in>set post. \<not> is_txn_method r \<longrightarrow> fst (match_rule r meta (default_func_map fmo)) = Inr False"
  shows "\<exists>ans. fst (match e meta fmo) = Inr ans \<and>
           target_account ans = target_account r2 \<and>
           (\<forall>k\<in>set get_fields. k \<noteq> RULE_MINUS_ACCOUNT \<longrightarrow> k \<noteq> RULE_PLUS_ACCOUNT \<longrightarrow>
              getattr ans k = getattr r2 k) \<and>
           method_account ans =
             (if truthy (method_account r2) then method_account r2 else method_account a')"
proof -
  let ?fm = "default_func_map fmo"
  let ?ans = "overwrite r2' (a'\<lparr>is_mask := is_mask r2'\<rparr>)"
  have c: "list_all check (pre @ r2 # post)" using valid_config_check[OF assms(1)] assms(2) by simp
  then have cr: "check r2" and cp: "list_all check post" by simp_all
  have u: "unmask r2' = unmask r2" using match_rule_unmask[of r2 meta ?fm] assms(6) by simp
  have g: "\<And>k. getattr r2' k = getattr r2 k" using unmask_getattr[OF u] .
  have "fst (match e meta fmo) = Inr ?ans"
    using assms(3)
    by (simp add: match_valid[OF assms(1)] assms(2) pass2_last_at[OF assms(4,5) cr assms(6,7) cp assms(9)])
  moreover have "target_account ?ans = target_account r2"
    using assms(8) g[of RULE_PLUS_ACCOUNT] by (simp add: overwrite_target_account)
  moreover have "method_account ?ans = (if truthy (method_account r2) then method_account r2 else method_account a')"
    using g[of RULE_MINUS_ACCOUNT] by (simp add: overwrite_method_account)
  moreover have "\<forall>k\<in>set get_fields. k \<noteq> RULE_MINUS_ACCOUNT \<longrightarrow> k \<noteq> RULE_PLUS_ACCOUNT \<longrightarrow>
              getattr ?ans k = getattr r2 k"
    using g by (simp add: overwrite_getattr del: getattr.simps)
  ultimately show ?thesis by blast
qed

theorem last_match_wins_witness:
  "match_rule (convert_rule d_mike) meta_tea (default_func_map None) = (Inr True, convert_rule d_mike) \<and>
   (\<exists>ans. fst (match (engine [d_mike, d_mike_cash, d_coffee]) meta_tea None) = Inr ans \<and>
     target_account ans = PStr ''Expenses:Lunch'' \<and> method_account ans = PStr ''Assets:Cash'' \<and>
     payee ans = PStr ''mike'' \<and> txn_type ans = PStr ''cash'')"
proof -
  let ?e = "engine [d_mike, d_mike_cash, d_coffee]"
  let ?dm = "PStr ''Assets:FIXME''" and ?dp = "PStr ''Expenses:FIXME''"
  let ?fm = "default_func_map None"
  let ?r1 = "convert_rule d_mike" and ?r2 = "convert_rule d_mike_cash"
  have v: "valid_config ?e ?dm ?dp"
    by (simp add: run_defs)
  have r: "rules ?e = [?r1] @ ?r2 # [convert_rule d_coffee]"
    by (simp add: engine_def)
  have p1: "pass1 ?fm meta_tea (initial_ans ?dm ?dp) (rules ?e) = Inr (initial_ans ?dm ?dp)"
    by (simp add: run_defs)
  have p2: "pass2 ?fm meta_tea (initial_ans ?dm ?dp) [?r1] =
              (Continue (overwrite ?r1 (initial_ans ?dm ?dp)), [?r1])"
    by (simp add: run_defs)
  have n: "\<not> is_txn_method ?r2" by (simp add: run_defs)
  have m: "match_rule ?r2 meta_tea ?fm = (Inr True, ?r2)"
    by (simp add: run_defs)
  have t: "\<not> truthy (is_mask ?r2)" "truthy (target_account ?r2)"
    by (simp_all add: run_defs)
  have post: "\<forall>r\<in>set [convert_rule d_coffee]. \<not> is_txn_method r \<longrightarrow> fst (match_rule r meta_tea ?fm) = Inr False"
    by (simp add: run_defs)
  have f: "RULE_PAYEE \<in> set get_fields" "RULE_TXN_TYPE \<in> set get_fields"
    by (simp_all add: get_fields_def)
  have m1: "match_rule ?r1 meta_tea ?fm = (Inr True, ?r1)"
    by (simp add: run_defs)
  from last_match_wins[OF v r p1 p2 n m t post]
  obtain ans where a: "fst (match ?e meta_tea None) = Inr ans"
    "target_account ans = target_account ?r2"
    "\<forall>k\<in>set get_fields. k \<noteq> RULE_MINUS_ACCOUNT \<longrightarrow> k \<noteq> RULE_PLUS_ACCOUNT \<longrightarrow>
              getattr ans k = getattr ?r2 k"
    "method_account ans =
       (if truthy (method_account ?r2) then method_account ?r2
        else method_account (overwrite ?r1 (initial_ans ?dm ?dp)))"
    by blast
  have "payee ans = PStr ''mike''" "txn_type ans = PStr ''cash''"
    using a(3) f by (auto simp: run_defs)
  moreover have "target_account ans = PStr ''Expenses:Lunch''" "method_account ans = PStr ''Assets:Cash''"
    using a(2,4) by (simp_all add: run_defs)
  ultimately show ?thesis using a(1) m1 by blast
qed







text \<open>
  C6 as stated fails: the engine has the one rule \<open>item: coffee\<close> and the record has no
  key \<open>item\<close>. There is no method rule, the predicate of the rule does not succeed (it
  raises KeyError), and \<open>match\<close> raises KeyError. On a record with another item \<open>match\<close>
  returns the defaults, and \<open>is_mask\<close> is \<open>None\<close>.
\<close>

theorem no_match_gives_defaults_counterexample:
  "Ruler_init (Some (yaml [d_coffee])) = Inr (engine [d_coffee]) \<and>
   valid_config (engine [d_coffee]) (PStr ''Assets:FIXME'') (PStr ''Expenses:FIXME'') \<and>
   \<not> is_txn_method (convert_rule d_coffee) \<and>
   fst (match_rule (convert_rule d_coffee) [(''payee'', PStr ''bob'')] (default_func_map None)) =
     Inl KeyError \<and>
   fst (match (engine [d_coffee]) [(''payee'', PStr ''bob'')] None) = Inl KeyError \<and>
   fst (match (engine [d_coffee]) [(''item'', PStr ''tea'')] None) =
     Inr (initial_ans (PStr ''Assets:FIXME'') (PStr ''Expenses:FIXME'')) \<and>
   is_mask (initial_ans (PStr ''Assets:FIXME'') (PStr ''Expenses:FIXME'')) = PNone"
  by (simp add: run_defs)

text \<open>
  C6 (as amended). On a valid engine and a record for which no method rule's
  \<open>txn_method\<close> equals the record's and the predicate of no other rule succeeds,
  \<open>match\<close> raises KeyError when there is a method rule and the resolved name of
  \<open>txn_method\<close> cannot be looked up in the record; otherwise it raises the error of the
  first rule in list order whose predicate raises; otherwise, every predicate being false,
  it returns the fresh result holding the two configured defaults: \<open>method_account\<close> and
  \<open>target_account\<close> are the defaults and \<open>is_mask\<close> is still the unset \<open>None\<close>, which
  is false.
\<close>

theorem no_match_gives_defaults:
  assumes "valid_config e dm dp"
    and "\<forall>r\<in>set (rules e). \<not> method_hit (default_func_map fmo) meta r"
    and "\<forall>r\<in>set (rules e). \<not> is_txn_method r \<longrightarrow>
           fst (match_rule r meta (default_func_map fmo)) \<noteq> Inr True"
  shows "fst (match e meta fmo) =
           (if list_ex is_txn_method (rules e) \<and> \<not> key_present (default_func_map fmo) meta RULE_TXN_METHOD
            then Inl KeyError
            else case filter (\<lambda>r. \<not> is_txn_method r \<and>
                                   fst (match_rule r meta (default_func_map fmo)) \<noteq> Inr False) (rules e) of
                   [] \<Rightarrow> Inr (initial_ans dm dp)
                 | r # rest \<Rightarrow>
                     (case fst (match_rule r meta (default_func_map fmo)) of
                        Inl err \<Rightarrow> Inl err
                      | Inr b \<Rightarrow> Inr (initial_ans dm dp))) \<and>
         method_account (initial_ans dm dp) = dm \<and> target_account (initial_ans dm dp) = dp \<and>
         is_mask (initial_ans dm dp) = PNone \<and> \<not> truthy (is_mask (initial_ans dm dp))"
proof -
  let ?fm = "default_func_map fmo"
  have c: "list_all check (rules e)" using assms(1) by (simp add: valid_config_def)
  note p1 = pass1_no_method_hit[OF c assms(2), of "initial_ans dm dp"]
  note p2 = pass2_no_success[OF c assms(3), of "initial_ans dm dp"]
  have "fst (match e meta fmo) =
           (if list_ex is_txn_method (rules e) \<and> \<not> key_present ?fm meta RULE_TXN_METHOD
            then Inl KeyError
            else case filter (\<lambda>r. \<not> is_txn_method r \<and>
                                   fst (match_rule r meta ?fm) \<noteq> Inr False) (rules e) of
                   [] \<Rightarrow> Inr (initial_ans dm dp)
                 | r # rest \<Rightarrow>
                     (case fst (match_rule r meta ?fm) of
                        Inl err \<Rightarrow> Inl err
                      | Inr b \<Rightarrow> Inr (initial_ans dm dp)))"
    unfolding match_valid[OF assms(1)] p1
    by (simp add: p2 split: list.splits sum.splits)
  then show ?thesis by (simp add: initial_ans_def RuleMeta_init_def)
qed

theorem no_match_gives_defaults_witness:
  "valid_config (engine [d_mike, d_wechat]) (PStr ''Assets:FIXME'') (PStr ''Expenses:FIXME'') \<and>
   fst (match (engine [d_mike, d_wechat]) [(''payee'', PStr ''bob''), (''txn_method'', PStr ''cash'')] None) =
     Inr (initial_ans (PStr ''Assets:FIXME'') (PStr ''Expenses:FIXME'')) \<and>
   fst (match (engine [d_mike, d_wechat]) [(''txn_method'', PStr ''cash'')] None) = Inl KeyError \<and>
   fst (match (engine [d_mike, d_wechat]) [(''payee'', PStr ''bob'')] None) = Inl KeyError"
proof -
  let ?e = "engine [d_mike, d_wechat]"
  let ?fm = "default_func_map None"
  let ?m1 = "[(''payee'', PStr ''bob''), (''txn_method'', PStr ''cash'')]"
  let ?m2 = "[(''txn_method'', PStr ''cash'')]"
  let ?m3 = "[(''payee'', PStr ''bob'')]"
  have v: "valid_config ?e (PStr ''Assets:FIXME'') (PStr ''Expenses:FIXME'')"
    by (simp add: run_defs)
  have a1: "\<forall>r\<in>set (rules ?e). \<not> method_hit ?fm ?m1 r"
    and a2: "\<forall>r\<in>set (rules ?e). \<not> method_hit ?fm ?m2 r"
    and a3: "\<forall>r\<in>set (rules ?e). \<not> method_hit ?fm ?m3 r"
    by (simp_all add: run_defs method_hit_def)
  have b1: "\<forall>r\<in>set (rules ?e). \<not> is_txn_method r \<longrightarrow> fst (match_rule r ?m1 ?fm) \<noteq> Inr True"
    and b2: "\<forall>r\<in>set (rules ?e). \<not> is_txn_method r \<longrightarrow> fst (match_rule r ?m2 ?fm) \<noteq> Inr True"
    and b3: "\<forall>r\<in>set (rules ?e). \<not> is_txn_method r \<longrightarrow> fst (match_rule r ?m3 ?fm) \<noteq> Inr True"
    by (simp_all add: run_defs)
  have f1: "filter (\<lambda>r. \<not> is_txn_method r \<and> fst (match_rule r ?m1 ?fm) \<noteq> Inr False) (rules ?e) = []"
    by (simp add: run_defs)
  have f2: "filter (\<lambda>r. \<not> is_txn_method r \<and> fst (match_rule r ?m2 ?fm) \<noteq> Inr False) (rules ?e) =
      [convert_rule d_mike]"
    and g2: "fst (match_rule (convert_rule d_mike) ?m2 ?fm) = Inl KeyError"
    by (simp_all add: run_defs)
  have k1: "key_present ?fm ?m1 RULE_TXN_METHOD" and k2: "key_present ?fm ?m2 RULE_TXN_METHOD"
    and k3: "\<not> key_present ?fm ?m3 RULE_TXN_METHOD" and l: "list_ex is_txn_method (rules ?e)"
    by (simp_all add: run_defs key_present_def)
  have r1: "fst (match ?e ?m1 None) = Inr (initial_ans (PStr ''Assets:FIXME'') (PStr ''Expenses:FIXME''))"
    using no_match_gives_defaults[OF v a1 b1, THEN conjunct1] unfolding f1 by (simp add: k1)
  have r2: "fst (match ?e ?m2 None) = Inl KeyError"
    using no_match_gives_defaults[OF v a2 b2, THEN conjunct1] unfolding f2 by (simp add: k2 g2)
  have r3: "fst (match ?e ?m3 None) = Inl KeyError"
    using no_match_gives_defaults[OF v a3 b3, THEN conjunct1] by (simp add: k3 l)
  show ?thesis using v r1 r2 r3 by blast
qed

text \<open>
  C7 as stated fails when two values of the record contain \<open>foo\<close>. With \<open>foobar\<close>
  first and \<open>foobaz\<close> after it, a value contains \<open>foobar\<close> and yet the mask state is
  true. With \<open>foobaz\<close> first and \<open>foobar\<close> after it, a value contains \<open>foo\<close> without
  \<open>bar\<close> and yet the mask state is false and the loop goes on.
\<close>

theorem mask_exclude_last_hit_counterexample:
  "Ruler_init (Some (yaml [d_foo_bar])) = Inr (engine [d_foo_bar]) \<and>
   match_rule (convert_rule d_foo_bar) [(''memo'', PStr ''foobar''), (''note'', PStr ''foobaz'')]
      (default_func_map None) =
     (Inr True, (convert_rule d_foo_bar)\<lparr>is_mask := PBool True\<rparr>) \<and>
   str_contains ''foobar'' ''foobar'' \<and>
   match_rule (convert_rule d_foo_bar) [(''memo'', PStr ''foobaz''), (''note'', PStr ''foobar'')]
      (default_func_map None) =
     (Inr True, (convert_rule d_foo_bar)\<lparr>is_mask := PBool False\<rparr>) \<and>
   str_contains ''foo'' ''foobaz'' \<and> \<not> str_contains ''bar'' ''foobaz'' \<and>
   fst (pass2_body (default_func_map None) [(''memo'', PStr ''foobaz''), (''note'', PStr ''foobar'')]
          (initial_ans (PStr ''Assets:FIXME'') (PStr ''Expenses:FIXME'')) (convert_rule d_foo_bar)) =
     Continue (overwrite (convert_rule d_foo_bar)
                ((initial_ans (PStr ''Assets:FIXME'') (PStr ''Expenses:FIXME''))\<lparr>is_mask := PBool False\<rparr>))"
  by (simp add: run_defs)

text \<open>
  C7 (as amended). Take a rule whose only predicate is \<open>txn_mask = m\<close>, with a non-empty
  \<open>txn_exclude = x\<close> and no separator (the claim's rule has \<open>m\<close> = foo and \<open>x\<close> = bar),
  and let \<open>mask_hits m meta\<close> be the string values of the record that contain \<open>m\<close>, in
  the order of its items. If there is none the predicate fails. Otherwise the predicate
  succeeds and the mask state is decided by the last of them alone: false when it
  contains \<open>x\<close>, and Pass 2 overwrites and goes on to the rest of the rules; true when it
  does not, and Pass 2 stops with the rest of the rules untouched.
\<close>

theorem mask_exclude_last_hit:
  assumes "only_mask_rule r" and "txn_mask r = PStr m" and "txn_exclude r = PStr x" and "x \<noteq> []"
  shows "match_rule r meta fm =
           (case mask_hits m meta of
              [] \<Rightarrow> (Inr False, r)
            | h # hs \<Rightarrow> (Inr True, r\<lparr>is_mask := PBool (\<not> str_contains x (last (h # hs)))\<rparr>)) \<and>
         pass2 fm meta ans (r # rest) =
           (case mask_hits m meta of
              [] \<Rightarrow> (fst (pass2 fm meta ans rest), r # snd (pass2 fm meta ans rest))
            | h # hs \<Rightarrow>
                if str_contains x (last (h # hs))
                then (fst (pass2 fm meta (overwrite r (ans\<lparr>is_mask := PBool False\<rparr>)) rest),
                      r\<lparr>is_mask := PBool False\<rparr> #
                        snd (pass2 fm meta (overwrite r (ans\<lparr>is_mask := PBool False\<rparr>)) rest))
                else (Break (ans\<lparr>is_mask := PBool True\<rparr>), r\<lparr>is_mask := PBool True\<rparr> # rest))"
proof -
  note m = match_rule_only_mask[OF assms, of meta fm]
  have nm: "\<not> is_txn_method r"
    using only_mask_rule_fields(4)[OF assms(1)] by (simp add: is_txn_method_iff)
  have c: "check r" using check_if_set[of RULE_TXN_MASK r] assms(2) by simp
  have o: "\<And>b a. overwrite (r\<lparr>is_mask := b\<rparr>) a = overwrite r a"
    by (rule overwrite_unmask) simp
  have "pass2 fm meta ans (r # rest) =
           (case mask_hits m meta of
              [] \<Rightarrow> (fst (pass2 fm meta ans rest), r # snd (pass2 fm meta ans rest))
            | h # hs \<Rightarrow>
                if str_contains x (last (h # hs))
                then (fst (pass2 fm meta (overwrite r (ans\<lparr>is_mask := PBool False\<rparr>)) rest),
                      r\<lparr>is_mask := PBool False\<rparr> #
                        snd (pass2 fm meta (overwrite r (ans\<lparr>is_mask := PBool False\<rparr>)) rest))
                else (Break (ans\<lparr>is_mask := PBool True\<rparr>), r\<lparr>is_mask := PBool True\<rparr> # rest))"
    using nm c by (simp add: pass2_body_def m Let_def o split_beta split: list.splits)
  with m show ?thesis by simp
qed

theorem mask_exclude_last_hit_witness:
  "match_rule (convert_rule d_foo_bar) [(''memo'', PStr ''foobar'')] (default_func_map None) =
     (Inr True, (convert_rule d_foo_bar)\<lparr>is_mask := PBool False\<rparr>) \<and>
   pass2 (default_func_map None) [(''memo'', PStr ''foobaz'')]
     (initial_ans (PStr ''Assets:FIXME'') (PStr ''Expenses:FIXME''))
     [convert_rule d_foo_bar, convert_rule d_foo_mask] =
     (Break ((initial_ans (PStr ''Assets:FIXME'') (PStr ''Expenses:FIXME''))\<lparr>is_mask := PBool True\<rparr>),
      [(convert_rule d_foo_bar)\<lparr>is_mask := PBool True\<rparr>, convert_rule d_foo_mask])"
proof -
  let ?r = "convert_rule d_foo_bar"
  have o: "only_mask_rule ?r"
    by (simp add: only_mask_rule_def modifier_field_def run_defs)
  have m: "txn_mask ?r = PStr ''foo''" and x: "txn_exclude ?r = PStr ''bar''"
    by (simp_all add: run_defs)
  have n: "''bar'' \<noteq> []" by simp
  have h1: "mask_hits ''foo'' [(''memo'', PStr ''foobar'')] = [''foobar'']"
    and h2: "mask_hits ''foo'' [(''memo'', PStr ''foobaz'')] = [''foobaz'']"
    by (simp_all add: mask_hits_def)
  show ?thesis
    using mask_exclude_last_hit[OF o m x n, of "[(''memo'', PStr ''foobar'')]" "default_func_map None",
            THEN conjunct1]
          mask_exclude_last_hit[OF o m x n, of "[(''memo'', PStr ''foobaz'')]" "default_func_map None"
            "initial_ans (PStr ''Assets:FIXME'') (PStr ''Expenses:FIXME'')" "[convert_rule d_foo_mask]",
            THEN conjunct2]
    by (simp add: h1 h2)
qed




text \<open>
  C9 as stated fails: an account of a rule may be a list, as \<open>method_account: [a, b]\<close> in
  the document of \<open>test_load_yaml\<close>. The constructor accepts the rule, and
  \<open>garther_accounts\<close> raises TypeError at \<open>minus not in ans\<close>, a list being unhashable.
\<close>

theorem garther_accounts_sorted_distinct_counterexample:
  "Ruler_init (Some (yaml [d_mike, d_list])) = Inr (engine [d_mike, d_list]) \<and>
   method_account (convert_rule d_list) = PList [PStr ''a'', PStr ''b''] \<and>
   garther_accounts (engine [d_mike, d_list]) = Inl TypeError"
  by (simp add: run_defs d_list_def garther_accounts_def add_account_def set_member_def)

text \<open>
  C9 (as amended). For an engine whose two defaults are strings: when the rules hold
  strings (or nothing) as accounts, \<open>garther_accounts\<close> returns a list of strings that is
  sorted in the lexicographic order of strings, has no string twice, and has as members
  exactly the two defaults and every \<open>method_account\<close> and \<open>target_account\<close> that is
  set (true) on a rule; when a rule holds a non-empty list as an account,
  \<open>garther_accounts\<close> raises TypeError.
\<close>

theorem garther_accounts_sorted_distinct:
  assumes "DEFAULT_MINUS (config e) = Some (PStr a)" and "DEFAULT_PLUS (config e) = Some (PStr b)"
  shows "((\<forall>r\<in>set (rules e). str_accounts r) \<longrightarrow>
            (\<exists>L. garther_accounts e = Inr (map PStr L) \<and> sorted L \<and> distinct L \<and>
                 set L = {a, b} \<union> set (rule_accounts (rules e)))) \<and>
         (list_ex unhashable_account (rules e) \<longrightarrow> garther_accounts e = Inl TypeError)"
proof (intro conjI impI)
  assume s: "\<forall>r\<in>set (rules e). str_accounts r"
  let ?xs = "if a = b then [a] else [a, b]"
  have i: "(if py_eq (PStr b) (PStr a) then [PStr a] else [PStr a, PStr b]) = map PStr ?xs"
    by auto
  have d: "distinct ?xs" by simp
  obtain ys where ys: "garther_loop (rules e) (map PStr ?xs) = Inr (map PStr ys)" "distinct ys"
      "set ys = set ?xs \<union> set (rule_accounts (rules e))"
    using garther_loop_strs[OF s d] by blast
  have g: "garther_loop (rules e) (if py_eq (PStr b) (PStr a) then [PStr a] else [PStr a, PStr b]) =
      Inr (map PStr ys)"
    unfolding i by (rule ys(1))
  have "garther_accounts e = Inr (map PStr (sort ys))"
    unfolding garther_accounts_def assms(1,2) option.case g by (simp add: py_sort_strs)
  moreover have "sorted (sort ys)" "distinct (sort ys)" using ys(2) by simp_all
  moreover have "set (sort ys) = {a, b} \<union> set (rule_accounts (rules e))"
    using ys(3) by auto
  ultimately show "\<exists>L. garther_accounts e = Inr (map PStr L) \<and> sorted L \<and> distinct L \<and>
                 set L = {a, b} \<union> set (rule_accounts (rules e))" by blast
next
  assume u: "list_ex unhashable_account (rules e)"
  show "garther_accounts e = Inl TypeError"
    unfolding garther_accounts_def assms(1,2) option.case
    by (simp add: garther_loop_unhashable[OF u])
qed

theorem garther_accounts_sorted_distinct_witness:
  "garther_accounts (engine [d_mike, d_wechat, d_mike_cash, d_foo_mask, d_coffee, d_wechat]) =
     Inr (map PStr [''Assets:Cash'', ''Assets:FIXME'', ''Assets:Hidden'', ''Assets:Wechat'',
                    ''Expenses:Coffee'', ''Expenses:FIXME'', ''Expenses:Food'', ''Expenses:Hidden'',
                    ''Expenses:Lunch'']) \<and>
   rule_accounts (rules (engine [d_mike, d_wechat, d_mike_cash, d_foo_mask, d_coffee, d_wechat])) =
     [''Expenses:Food'', ''Assets:Wechat'', ''Assets:Cash'', ''Expenses:Lunch'', ''Assets:Hidden'',
      ''Expenses:Hidden'', ''Expenses:Coffee'', ''Assets:Wechat''] \<and>
   (\<exists>L. garther_accounts (engine [d_mike, d_wechat, d_mike_cash, d_foo_mask, d_coffee, d_wechat]) =
          Inr (map PStr L) \<and> sorted L \<and> distinct L \<and>
        set L = {''Assets:FIXME'', ''Expenses:FIXME''} \<union>
          set (rule_accounts (rules (engine [d_mike, d_wechat, d_mike_cash, d_foo_mask, d_coffee, d_wechat])))) \<and>
   list_ex unhashable_account (rules (engine [d_wechat, d_list, d_coffee])) \<and>
   garther_accounts (engine [d_wechat, d_list, d_coffee]) = Inl TypeError"
proof -
  let ?e = "engine [d_mike, d_wechat, d_mike_cash, d_foo_mask, d_coffee, d_wechat]"
  let ?e2 = "engine [d_wechat, d_list, d_coffee]"
  have v: "garther_accounts ?e =
     Inr (map PStr [''Assets:Cash'', ''Assets:FIXME'', ''Assets:Hidden'', ''Assets:Wechat'',
                    ''Expenses:Coffee'', ''Expenses:FIXME'', ''Expenses:Food'', ''Expenses:Hidden'',
                    ''Expenses:Lunch''])"
    by code_simp
  have a: "rule_accounts (rules ?e) =
     [''Expenses:Food'', ''Assets:Wechat'', ''Assets:Cash'', ''Expenses:Lunch'', ''Assets:Hidden'',
      ''Expenses:Hidden'', ''Expenses:Coffee'', ''Assets:Wechat'']"
    by (simp add: rule_accounts_def run_defs)
  have d: "DEFAULT_MINUS (config ?e) = Some (PStr ''Assets:FIXME'')"
          "DEFAULT_PLUS (config ?e) = Some (PStr ''Expenses:FIXME'')"
    by (simp_all add: engine_def yaml_def)
  have d2: "DEFAULT_MINUS (config ?e2) = Some (PStr ''Assets:FIXME'')"
          "DEFAULT_PLUS (config ?e2) = Some (PStr ''Expenses:FIXME'')"
    by (simp_all add: engine_def yaml_def)
  have s: "\<forall>r\<in>set (rules ?e). str_accounts r"
    by (simp add: str_accounts_def run_defs)
  have u: "list_ex unhashable_account (rules ?e2)"
    by (simp add: unhashable_account_def run_defs d_list_def)
  have t: "garther_accounts ?e2 = Inl TypeError"
    using garther_accounts_sorted_distinct[OF d2, THEN conjunct2] u by simp
  show ?thesis
    using v a garther_accounts_sorted_distinct[OF d, THEN conjunct1] s u t by blast
qed

text \<open>
  C10 as stated fails: the mask rule is first in the list, yet the result's
  \<open>method_account\<close> is neither the default nor from a rule before it; it comes from the
  method rule after it, through Pass 1.
\<close>

theorem mask_rule_fields_not_copied_counterexample:
  "Ruler_init (Some (yaml [d_refund_mask, d_alipay])) = Inr (engine [d_refund_mask, d_alipay]) \<and>
   rules (engine [d_refund_mask, d_alipay]) = [] @ convert_rule d_refund_mask # [convert_rule d_alipay] \<and>
   DEFAULT_MINUS (config (engine [d_refund_mask, d_alipay])) = Some (PStr ''Assets:FIXME'') \<and>
   match_rule (convert_rule d_refund_mask) meta_refund (default_func_map None) =
     (Inr True, (convert_rule d_refund_mask)\<lparr>is_mask := PBool True\<rparr>) \<and>
   fst (match (engine [d_refund_mask, d_alipay]) meta_refund None) =
     Inr ((initial_ans (PStr ''Assets:Alipay'') (PStr ''Expenses:FIXME''))\<lparr>is_mask := PBool True\<rparr>)"
  by (simp add: run_defs)

text \<open>
  C10 (as amended). When Pass 2 comes to a rule \<open>r\<close> that is not a method rule, whose
  predicate succeeds and leaves \<open>is_mask\<close> true, \<open>match\<close> returns the result as Pass 1
  (over the whole list) and Pass 2 on the rules before \<open>r\<close> have built it, with only
  \<open>is_mask\<close> set: both accounts and every field of \<open>get_fields\<close> are those of that
  result, and Pass 1 gives the same with \<open>r\<close> taken out of the list, so nothing of \<open>r\<close> is
  copied.
\<close>

theorem mask_rule_fields_not_copied:
  assumes "valid_config e dm dp" and "rules e = pre @ r # post"
    and "pass1 (default_func_map fmo) meta (initial_ans dm dp) (rules e) = Inr a1"
    and "pass2 (default_func_map fmo) meta a1 pre = (Continue a', pre')"
    and "\<not> is_txn_method r"
    and "match_rule r meta (default_func_map fmo) = (Inr True, r')"
    and "truthy (is_mask r')"
  shows "fst (match e meta fmo) = Inr (a'\<lparr>is_mask := is_mask r'\<rparr>) \<and>
         method_account (a'\<lparr>is_mask := is_mask r'\<rparr>) = method_account a' \<and>
         target_account (a'\<lparr>is_mask := is_mask r'\<rparr>) = target_account a' \<and>
         (\<forall>k\<in>set get_fields. getattr (a'\<lparr>is_mask := is_mask r'\<rparr>) k = getattr a' k) \<and>
         pass1 (default_func_map fmo) meta (initial_ans dm dp) (pre @ post) = Inr a1"
proof -
  have c: "list_all check (pre @ r # post)" using valid_config_check[OF assms(1)] assms(2) by simp
  then have cr: "check r" by simp
  have "fst (match e meta fmo) = Inr (a'\<lparr>is_mask := is_mask r'\<rparr>)"
    using assms(3) by (simp add: match_valid[OF assms(1)] assms(2) pass2_break_at[OF assms(4,5) cr assms(6,7)])
  moreover have "pass1 (default_func_map fmo) meta (initial_ans dm dp) (pre @ post) = Inr a1"
    using assms(3) pass1_drop_non_method[OF c assms(5)] by (simp add: assms(2))
  ultimately show ?thesis by simp
qed

theorem mask_rule_fields_not_copied_witness:
  "fst (match (engine [d_mike, d_foo_mask, d_coffee, d_wechat]) meta_foo None) =
     Inr ((overwrite (convert_rule d_mike) (initial_ans (PStr ''Assets:Wechat'') (PStr ''Expenses:FIXME'')))
            \<lparr>is_mask := PBool True\<rparr>) \<and>
   target_account (overwrite (convert_rule d_mike) (initial_ans (PStr ''Assets:Wechat'') (PStr ''Expenses:FIXME''))) =
     PStr ''Expenses:Food'' \<and>
   method_account (overwrite (convert_rule d_mike) (initial_ans (PStr ''Assets:Wechat'') (PStr ''Expenses:FIXME''))) =
     PStr ''Assets:Wechat'' \<and>
   method_account (convert_rule d_foo_mask) = PStr ''Assets:Hidden'' \<and>
   target_account (convert_rule d_foo_mask) = PStr ''Expenses:Hidden''"
proof -
  let ?e = "engine [d_mike, d_foo_mask, d_coffee, d_wechat]"
  let ?dm = "PStr ''Assets:FIXME''" and ?dp = "PStr ''Expenses:FIXME''"
  let ?fm = "default_func_map None"
  let ?a1 = "initial_ans (PStr ''Assets:Wechat'') (PStr ''Expenses:FIXME'')"
  let ?r = "convert_rule d_foo_mask"
  have v: "valid_config ?e ?dm ?dp"
    by (simp add: run_defs)
  have r: "rules ?e = [convert_rule d_mike] @ ?r # [convert_rule d_coffee, convert_rule d_wechat]"
    by (simp add: engine_def)
  have p1: "pass1 ?fm meta_foo (initial_ans ?dm ?dp) (rules ?e) = Inr ?a1"
    by (simp add: run_defs)
  have p2: "pass2 ?fm meta_foo ?a1 [convert_rule d_mike] =
              (Continue (overwrite (convert_rule d_mike) ?a1), [convert_rule d_mike])"
    by (simp add: run_defs)
  have n: "\<not> is_txn_method ?r" by (simp add: run_defs)
  have m: "match_rule ?r meta_foo ?fm = (Inr True, ?r\<lparr>is_mask := PBool True\<rparr>)"
    by (simp add: run_defs)
  have t: "truthy (is_mask (?r\<lparr>is_mask := PBool True\<rparr>))" by simp
  have "target_account (overwrite (convert_rule d_mike) ?a1) = PStr ''Expenses:Food''"
       "method_account (overwrite (convert_rule d_mike) ?a1) = PStr ''Assets:Wechat''"
       "method_account ?r = PStr ''Assets:Hidden''" "target_account ?r = PStr ''Expenses:Hidden''"
    by (simp_all add: run_defs)
  then show ?thesis using mask_rule_fields_not_copied[OF v r p1 p2 n m t] by simp
qed


end
